theory Spec2Isabelle
  imports Main "HOL-Library.Word" "HOL-Library.List_Lexorder"
begin

section \<open>machu.la edge functions: the trust boundary\<close>

text \<open>
  A shallow embedding of the security-relevant code of the Supabase edge functions
  \<^verbatim>\<open>handle-inbound-sms\<close>, \<^verbatim>\<open>verify-pin\<close>, \<^verbatim>\<open>admin-data\<close> and \<^verbatim>\<open>broadcast-sms\<close>:
  the Twilio signature check, the AES-GCM field envelope, the PIN generator, the
  decrypt-and-compare subscriber lookup and the fixed-window rate limiter.

  JavaScript strings are sequences of UTF-16 code units; a code unit is modelled as a
  natural number (below \<open>65536\<close> in every string the runtime can build). Typed arrays
  of bytes are lists of 8-bit words.
\<close>

subsection \<open>Strings and bytes\<close>

type_synonym byte = "8 word"
type_synonym jschar = nat
type_synonym jsstring = "jschar list"

definition js :: "string \<Rightarrow> jsstring" where
  \<comment> \<open>a string literal of the source\<close>
  "js s = map of_char s"

definition slice_last :: "nat \<Rightarrow> 'a list \<Rightarrow> 'a list" where
  \<comment> \<open>\<^verbatim>\<open>s.slice(-k)\<close>: the last \<open>k\<close> code units, the whole string when it is shorter\<close>
  "slice_last k s = drop (length s - k) s"

definition padStart :: "nat \<Rightarrow> 'a \<Rightarrow> 'a list \<Rightarrow> 'a list" where
  \<comment> \<open>\<^verbatim>\<open>s.padStart(k, c)\<close> with a one-unit filler\<close>
  "padStart k c s = replicate (k - length s) c @ s"

definition is_line_terminator :: "jschar \<Rightarrow> bool" where
  "is_line_terminator c = (c = 10 \<or> c = 13 \<or> c = 8232 \<or> c = 8233)"

definition is_white_space :: "jschar \<Rightarrow> bool" where
  \<comment> \<open>ECMAScript WhiteSpace and LineTerminator: what \<^verbatim>\<open>trim\<close> and \<^verbatim>\<open>parseInt\<close> skip\<close>
  "is_white_space c =
     (c = 9 \<or> c = 11 \<or> c = 12 \<or> c = 32 \<or> c = 160 \<or> c = 5760
      \<or> (8192 \<le> c \<and> c \<le> 8202) \<or> c = 8239 \<or> c = 8287 \<or> c = 12288 \<or> c = 65279
      \<or> is_line_terminator c)"

definition trim :: "jsstring \<Rightarrow> jsstring" where
  "trim s = rev (dropWhile is_white_space (rev (dropWhile is_white_space s)))"

subsection \<open>Numbers to text\<close>

definition digit36 :: "nat \<Rightarrow> jschar" where
  \<comment> \<open>the digits \<^verbatim>\<open>0-9a-z\<close> of \<^verbatim>\<open>Number.prototype.toString(radix)\<close>\<close>
  "digit36 d = (if d < 10 then 48 + d else 87 + d)"

function toStringRadix :: "nat \<Rightarrow> nat \<Rightarrow> jsstring" where
  \<comment> \<open>\<^verbatim>\<open>n.toString(r)\<close> for a non-negative integer \<open>n\<close> and a radix from 2 to 36\<close>
  "toStringRadix r n =
     (if n < r \<or> r < 2 then [digit36 n]
      else toStringRadix r (n div r) @ [digit36 (n mod r)])"
  by pat_completeness auto
termination
  by (relation "measure snd") auto

declare toStringRadix.simps [simp del]

subsection \<open>Text encoding\<close>

text \<open>
  \<^verbatim>\<open>TextEncoder.encode\<close> and \<^verbatim>\<open>TextDecoder.decode\<close> are the UTF-8 encoder and decoder of the
  Encoding Standard. The encoder first reads the UTF-16 code units as code points, a lone
  surrogate as U+FFFD. The decoder replaces every ill-formed sequence by U+FFFD and goes
  on at the byte that broke it; \<^verbatim>\<open>TextDecoder\<close> also drops a leading byte order mark.
  Byte values and code points are natural numbers here.
\<close>

definition is_high_surrogate :: "jschar \<Rightarrow> bool" where
  "is_high_surrogate u = (55296 \<le> u \<and> u \<le> 56319)"

definition is_low_surrogate :: "jschar \<Rightarrow> bool" where
  "is_low_surrogate u = (56320 \<le> u \<and> u \<le> 57343)"

definition is_surrogate :: "jschar \<Rightarrow> bool" where
  "is_surrogate u = (55296 \<le> u \<and> u \<le> 57343)"

fun utf16_code_points :: "jsstring \<Rightarrow> nat list" where
  "utf16_code_points [] = []"
| "utf16_code_points [u] = [if is_surrogate u then 65533 else u]"
| "utf16_code_points (h # l # r) =
     (if is_high_surrogate h \<and> is_low_surrogate l
      then (65536 + (h - 55296) * 1024 + (l - 56320)) # utf16_code_points r
      else (if is_surrogate h then 65533 else h) # utf16_code_points (l # r))"

definition utf8_encode_cp :: "nat \<Rightarrow> nat list" where
  "utf8_encode_cp c =
     (if c < 128 then [c]
      else if c < 2048 then [192 + c div 64, 128 + c mod 64]
      else if c < 65536 then [224 + c div 4096, 128 + c div 64 mod 64, 128 + c mod 64]
      else [240 + c div 262144, 128 + c div 4096 mod 64, 128 + c div 64 mod 64, 128 + c mod 64])"

definition TextEncoder_encode :: "jsstring \<Rightarrow> byte list" where
  "TextEncoder_encode s = map of_nat (concat (map utf8_encode_cp (utf16_code_points s)))"

definition in_range :: "nat \<Rightarrow> nat \<Rightarrow> nat \<Rightarrow> bool" where
  "in_range lo hi b = (lo \<le> b \<and> b \<le> hi)"

definition lower_bound :: "nat \<Rightarrow> nat" where
  \<comment> \<open>the least second byte after the lead byte \<open>b\<close>\<close>
  "lower_bound b = (if b = 224 then 160 else if b = 240 then 144 else 128)"

definition upper_bound :: "nat \<Rightarrow> nat" where
  "upper_bound b = (if b = 237 then 159 else if b = 244 then 143 else 191)"

fun utf8_decode :: "nat list \<Rightarrow> nat list" where
  "utf8_decode [] = []"
| "utf8_decode (b1 # bs) =
     (if b1 \<le> 127 then b1 # utf8_decode bs
      else if in_range 194 223 b1 then
        (case bs of
           [] \<Rightarrow> [65533]
         | b2 # bs2 \<Rightarrow>
             if in_range 128 191 b2 then ((b1 - 192) * 64 + (b2 - 128)) # utf8_decode bs2
             else 65533 # utf8_decode bs)
      else if in_range 224 239 b1 then
        (case bs of
           [] \<Rightarrow> [65533]
         | b2 # bs2 \<Rightarrow>
             if in_range (lower_bound b1) (upper_bound b1) b2 then
               (case bs2 of
                  [] \<Rightarrow> [65533]
                | b3 # bs3 \<Rightarrow>
                    if in_range 128 191 b3
                    then ((b1 - 224) * 4096 + (b2 - 128) * 64 + (b3 - 128)) # utf8_decode bs3
                    else 65533 # utf8_decode bs2)
             else 65533 # utf8_decode bs)
      else if in_range 240 244 b1 then
        (case bs of
           [] \<Rightarrow> [65533]
         | b2 # bs2 \<Rightarrow>
             if in_range (lower_bound b1) (upper_bound b1) b2 then
               (case bs2 of
                  [] \<Rightarrow> [65533]
                | b3 # bs3 \<Rightarrow>
                    if in_range 128 191 b3 then
                      (case bs3 of
                         [] \<Rightarrow> [65533]
                       | b4 # bs4 \<Rightarrow>
                           if in_range 128 191 b4
                           then ((b1 - 240) * 262144 + (b2 - 128) * 4096 + (b3 - 128) * 64
                                  + (b4 - 128)) # utf8_decode bs4
                           else 65533 # utf8_decode bs3)
                    else 65533 # utf8_decode bs2)
             else 65533 # utf8_decode bs)
      else 65533 # utf8_decode bs)"

definition utf16_units :: "nat \<Rightarrow> jsstring" where
  \<comment> \<open>a code point as one code unit or as a surrogate pair\<close>
  "utf16_units c =
     (if c < 65536 then [c]
      else [55296 + (c - 65536) div 1024, 56320 + (c - 65536) mod 1024])"

definition utf8_decode_without_BOM :: "byte list \<Rightarrow> jsstring" where
  "utf8_decode_without_BOM b = concat (map utf16_units (utf8_decode (map unat b)))"

definition strip_BOM :: "nat list \<Rightarrow> nat list" where
  "strip_BOM b = (if take 3 b = [239, 187, 191] then drop 3 b else b)"

definition TextDecoder_decode :: "byte list \<Rightarrow> jsstring" where
  "TextDecoder_decode b = concat (map utf16_units (utf8_decode (strip_BOM (map unat b))))"

subsection \<open>Case mapping\<close>

text \<open>
  \<^verbatim>\<open>String.prototype.toUpperCase\<close> reads the string as code points, a surrogate that is not
  half of a pair as itself, and replaces each code point by its upper case in the Unicode
  Character Database (version 14): one code point for most, several for the code points
  of \<open>upper_case_special\<close>. An entry \<open>(lo, hi, step, target)\<close> of \<open>upper_case_ranges\<close>
  maps \<open>lo\<close>, \<open>lo + step\<close>, ... up to \<open>hi\<close> to \<open>target\<close>, \<open>target + step\<close>, ...;
  a code point in neither table is its own upper case.
\<close>

definition upper_case_ranges :: "(nat \<times> nat \<times> nat \<times> nat) list" where
  "upper_case_ranges =
    [(181, 181, 1, 924), (224, 246, 1, 192), (248, 254, 1, 216), (255, 255, 1, 376),
     (257, 303, 2, 256), (305, 305, 1, 73), (307, 311, 2, 306), (314, 328, 2, 313),
     (331, 375, 2, 330), (378, 382, 2, 377), (383, 383, 1, 83), (384, 384, 1, 579),
     (387, 389, 2, 386), (392, 392, 1, 391), (396, 396, 1, 395), (402, 402, 1, 401),
     (405, 405, 1, 502), (409, 409, 1, 408), (410, 410, 1, 573), (414, 414, 1, 544),
     (417, 421, 2, 416), (424, 424, 1, 423), (429, 429, 1, 428), (432, 432, 1, 431),
     (436, 438, 2, 435), (441, 441, 1, 440), (445, 445, 1, 444), (447, 447, 1, 503),
     (453, 453, 1, 452), (454, 454, 1, 452), (456, 456, 1, 455), (457, 457, 1, 455),
     (459, 459, 1, 458), (460, 460, 1, 458), (462, 476, 2, 461), (477, 477, 1, 398),
     (479, 495, 2, 478), (498, 498, 1, 497), (499, 499, 1, 497), (501, 501, 1, 500),
     (505, 543, 2, 504), (547, 563, 2, 546), (572, 572, 1, 571), (575, 576, 1, 11390),
     (578, 578, 1, 577), (583, 591, 2, 582), (592, 592, 1, 11375), (593, 593, 1, 11373),
     (594, 594, 1, 11376), (595, 595, 1, 385), (596, 596, 1, 390), (598, 599, 1, 393),
     (601, 601, 1, 399), (603, 603, 1, 400), (604, 604, 1, 42923), (608, 608, 1, 403),
     (609, 609, 1, 42924), (611, 611, 1, 404), (613, 613, 1, 42893), (614, 614, 1, 42922),
     (616, 616, 1, 407), (617, 617, 1, 406), (618, 618, 1, 42926), (619, 619, 1, 11362),
     (620, 620, 1, 42925), (623, 623, 1, 412), (625, 625, 1, 11374), (626, 626, 1, 413),
     (629, 629, 1, 415), (637, 637, 1, 11364), (640, 640, 1, 422), (642, 642, 1, 42949),
     (643, 643, 1, 425), (647, 647, 1, 42929), (648, 648, 1, 430), (649, 649, 1, 580),
     (650, 651, 1, 433), (652, 652, 1, 581), (658, 658, 1, 439), (669, 669, 1, 42930),
     (670, 670, 1, 42928), (837, 837, 1, 921), (881, 883, 2, 880), (887, 887, 1, 886),
     (891, 893, 1, 1021), (940, 940, 1, 902), (941, 943, 1, 904), (945, 961, 1, 913),
     (962, 962, 1, 931), (963, 971, 1, 931), (972, 972, 1, 908), (973, 974, 1, 910),
     (976, 976, 1, 914), (977, 977, 1, 920), (981, 981, 1, 934), (982, 982, 1, 928),
     (983, 983, 1, 975), (985, 1007, 2, 984), (1008, 1008, 1, 922), (1009, 1009, 1, 929),
     (1010, 1010, 1, 1017), (1011, 1011, 1, 895), (1013, 1013, 1, 917),
     (1016, 1016, 1, 1015), (1019, 1019, 1, 1018), (1072, 1103, 1, 1040),
     (1104, 1119, 1, 1024), (1121, 1153, 2, 1120), (1163, 1215, 2, 1162),
     (1218, 1230, 2, 1217), (1231, 1231, 1, 1216), (1233, 1327, 2, 1232),
     (1377, 1414, 1, 1329), (4304, 4346, 1, 7312), (4349, 4351, 1, 7357),
     (5112, 5117, 1, 5104), (7296, 7296, 1, 1042), (7297, 7297, 1, 1044),
     (7298, 7298, 1, 1054), (7299, 7300, 1, 1057), (7301, 7301, 1, 1058),
     (7302, 7302, 1, 1066), (7303, 7303, 1, 1122), (7304, 7304, 1, 42570),
     (7545, 7545, 1, 42877), (7549, 7549, 1, 11363), (7566, 7566, 1, 42950),
     (7681, 7829, 2, 7680), (7835, 7835, 1, 7776), (7841, 7935, 2, 7840),
     (7936, 7943, 1, 7944), (7952, 7957, 1, 7960), (7968, 7975, 1, 7976),
     (7984, 7991, 1, 7992), (8000, 8005, 1, 8008), (8017, 8023, 2, 8025),
     (8032, 8039, 1, 8040), (8048, 8049, 1, 8122), (8050, 8053, 1, 8136),
     (8054, 8055, 1, 8154), (8056, 8057, 1, 8184), (8058, 8059, 1, 8170),
     (8060, 8061, 1, 8186), (8112, 8113, 1, 8120), (8126, 8126, 1, 921),
     (8144, 8145, 1, 8152), (8160, 8161, 1, 8168), (8165, 8165, 1, 8172),
     (8526, 8526, 1, 8498), (8560, 8575, 1, 8544), (8580, 8580, 1, 8579),
     (9424, 9449, 1, 9398), (11312, 11359, 1, 11264), (11361, 11361, 1, 11360),
     (11365, 11365, 1, 570), (11366, 11366, 1, 574), (11368, 11372, 2, 11367),
     (11379, 11379, 1, 11378), (11382, 11382, 1, 11381), (11393, 11491, 2, 11392),
     (11500, 11502, 2, 11499), (11507, 11507, 1, 11506), (11520, 11557, 1, 4256),
     (11559, 11559, 1, 4295), (11565, 11565, 1, 4301), (42561, 42605, 2, 42560),
     (42625, 42651, 2, 42624), (42787, 42799, 2, 42786), (42803, 42863, 2, 42802),
     (42874, 42876, 2, 42873), (42879, 42887, 2, 42878), (42892, 42892, 1, 42891),
     (42897, 42899, 2, 42896), (42900, 42900, 1, 42948), (42903, 42921, 2, 42902),
     (42933, 42947, 2, 42932), (42952, 42954, 2, 42951), (42961, 42961, 1, 42960),
     (42967, 42969, 2, 42966), (42998, 42998, 1, 42997), (43859, 43859, 1, 42931),
     (43888, 43967, 1, 5024), (65345, 65370, 1, 65313), (66600, 66639, 1, 66560),
     (66776, 66811, 1, 66736), (66967, 66977, 1, 66928), (66979, 66993, 1, 66940),
     (66995, 67001, 1, 66956), (67003, 67004, 1, 66964), (68800, 68850, 1, 68736),
     (71872, 71903, 1, 71840), (93792, 93823, 1, 93760), (125218, 125251, 1, 125184)]"

definition upper_case_special :: "(nat \<times> nat list) list" where
  "upper_case_special =
    [(223, [83, 83]), (329, [700, 78]), (496, [74, 780]), (912, [921, 776, 769]),
     (944, [933, 776, 769]), (1415, [1333, 1362]), (7830, [72, 817]), (7831, [84, 776]),
     (7832, [87, 778]), (7833, [89, 778]), (7834, [65, 702]), (8016, [933, 787]),
     (8018, [933, 787, 768]), (8020, [933, 787, 769]), (8022, [933, 787, 834]),
     (8064, [7944, 921]), (8065, [7945, 921]), (8066, [7946, 921]), (8067, [7947, 921]),
     (8068, [7948, 921]), (8069, [7949, 921]), (8070, [7950, 921]), (8071, [7951, 921]),
     (8072, [7944, 921]), (8073, [7945, 921]), (8074, [7946, 921]), (8075, [7947, 921]),
     (8076, [7948, 921]), (8077, [7949, 921]), (8078, [7950, 921]), (8079, [7951, 921]),
     (8080, [7976, 921]), (8081, [7977, 921]), (8082, [7978, 921]), (8083, [7979, 921]),
     (8084, [7980, 921]), (8085, [7981, 921]), (8086, [7982, 921]), (8087, [7983, 921]),
     (8088, [7976, 921]), (8089, [7977, 921]), (8090, [7978, 921]), (8091, [7979, 921]),
     (8092, [7980, 921]), (8093, [7981, 921]), (8094, [7982, 921]), (8095, [7983, 921]),
     (8096, [8040, 921]), (8097, [8041, 921]), (8098, [8042, 921]), (8099, [8043, 921]),
     (8100, [8044, 921]), (8101, [8045, 921]), (8102, [8046, 921]), (8103, [8047, 921]),
     (8104, [8040, 921]), (8105, [8041, 921]), (8106, [8042, 921]), (8107, [8043, 921]),
     (8108, [8044, 921]), (8109, [8045, 921]), (8110, [8046, 921]), (8111, [8047, 921]),
     (8114, [8122, 921]), (8115, [913, 921]), (8116, [902, 921]), (8118, [913, 834]),
     (8119, [913, 834, 921]), (8124, [913, 921]), (8130, [8138, 921]), (8131, [919, 921]),
     (8132, [905, 921]), (8134, [919, 834]), (8135, [919, 834, 921]), (8140, [919, 921]),
     (8146, [921, 776, 768]), (8147, [921, 776, 769]), (8150, [921, 834]),
     (8151, [921, 776, 834]), (8162, [933, 776, 768]), (8163, [933, 776, 769]),
     (8164, [929, 787]), (8166, [933, 834]), (8167, [933, 776, 834]), (8178, [8186, 921]),
     (8179, [937, 921]), (8180, [911, 921]), (8182, [937, 834]), (8183, [937, 834, 921]),
     (8188, [937, 921]), (64256, [70, 70]), (64257, [70, 73]), (64258, [70, 76]),
     (64259, [70, 70, 73]), (64260, [70, 70, 76]), (64261, [83, 84]), (64262, [83, 84]),
     (64275, [1348, 1350]), (64276, [1348, 1333]), (64277, [1348, 1339]),
     (64278, [1358, 1350]), (64279, [1348, 1341])]"

definition toUpperCase_cp :: "nat \<Rightarrow> nat list" where
  "toUpperCase_cp c =
     (if c < 128 then [if 97 \<le> c \<and> c \<le> 122 then c - 32 else c]
      else (case map_of upper_case_special c of
              Some cs \<Rightarrow> cs
            | None \<Rightarrow>
                (case find (\<lambda>(lo, hi, step, target).
                              lo \<le> c \<and> c \<le> hi \<and> (c - lo) mod step = 0)
                        upper_case_ranges of
                   Some (lo, hi, step, target) \<Rightarrow> [target + (c - lo)]
                 | None \<Rightarrow> [c])))"

fun string_code_points :: "jsstring \<Rightarrow> nat list" where
  \<comment> \<open>the code points of a string, a lone surrogate kept as it is\<close>
  "string_code_points [] = []"
| "string_code_points [u] = [u]"
| "string_code_points (h # l # r) =
     (if is_high_surrogate h \<and> is_low_surrogate l
      then (65536 + (h - 55296) * 1024 + (l - 56320)) # string_code_points r
      else h # string_code_points (l # r))"

definition toUpperCase :: "jsstring \<Rightarrow> jsstring" where
  "toUpperCase s = concat (map utf16_units (concat (map toUpperCase_cp (string_code_points s))))"

subsection \<open>Secret generator\<close>

definition getUint32 :: "byte \<Rightarrow> byte \<Rightarrow> byte \<Rightarrow> byte \<Rightarrow> nat" where
  \<comment> \<open>\<^verbatim>\<open>new DataView(bytes.buffer).getUint32(0)\<close>: big-endian\<close>
  "getUint32 b0 b1 b2 b3 = unat b0 * 2 ^ 24 + unat b1 * 2 ^ 16 + unat b2 * 2 ^ 8 + unat b3"

definition generatePin :: "byte \<Rightarrow> byte \<Rightarrow> byte \<Rightarrow> byte \<Rightarrow> jsstring" where
  \<comment> \<open>the four bytes are the draw of \<^verbatim>\<open>crypto.getRandomValues\<close>\<close>
  "generatePin b0 b1 b2 b3 =
     (let num = getUint32 b0 b1 b2 b3
      in padStart 6 (of_char CHR ''0'') (toUpperCase (slice_last 6 (toStringRadix 36 num))))"

subsection \<open>Hex strings\<close>

definition toHex :: "byte list \<Rightarrow> jsstring" where
  \<comment> \<open>\<^verbatim>\<open>Array.from(b).map(x => x.toString(16).padStart(2, '0')).join('')\<close>\<close>
  "toHex b = concat (map (\<lambda>x. padStart 2 (of_char CHR ''0'') (toStringRadix 16 (unat x))) b)"

fun match_pairs_all :: "jsstring \<Rightarrow> jsstring list" where
  \<comment> \<open>the matches of \<^verbatim>\<open>/.{2}/g\<close>, left to right: two code units that are not line
      terminators; the search moves on by one unit where there is no match\<close>
  "match_pairs_all (a # b # rest) =
     (if \<not> is_line_terminator a \<and> \<not> is_line_terminator b
      then [a, b] # match_pairs_all rest
      else match_pairs_all (b # rest))"
| "match_pairs_all [a] = []"
| "match_pairs_all [] = []"

definition match_pairs :: "jsstring \<Rightarrow> jsstring list option" where
  \<comment> \<open>\<^verbatim>\<open>h.match(/.{2}/g)\<close>: \<open>None\<close> is the \<^verbatim>\<open>null\<close> of a string with no match\<close>
  "match_pairs h = (case match_pairs_all h of [] \<Rightarrow> None | p # ps \<Rightarrow> Some (p # ps))"

definition hex_value :: "jschar \<Rightarrow> nat option" where
  "hex_value c =
     (if 48 \<le> c \<and> c \<le> 57 then Some (c - 48)
      else if 97 \<le> c \<and> c \<le> 102 then Some (c - 87)
      else if 65 \<le> c \<and> c \<le> 70 then Some (c - 55)
      else None)"

definition hex_number :: "jsstring \<Rightarrow> nat" where
  "hex_number ds = foldl (\<lambda>acc c. 16 * acc + (case hex_value c of None \<Rightarrow> 0 | Some d \<Rightarrow> d)) 0 ds"

definition parseInt16 :: "jsstring \<Rightarrow> int option" where
  \<comment> \<open>\<^verbatim>\<open>parseInt(s, 16)\<close>: leading white space, a sign and a \<^verbatim>\<open>0x\<close> prefix are skipped, then
      the longest run of hex digits is read; \<open>None\<close> is \<^verbatim>\<open>NaN\<close>\<close>
  "parseInt16 s =
     (let s1 = dropWhile is_white_space s;
          neg = (case s1 of [] \<Rightarrow> False | c # _ \<Rightarrow> c = 45);
          s2 = (case s1 of [] \<Rightarrow> [] | c # r \<Rightarrow> if c = 45 \<or> c = 43 then r else s1);
          s3 = (case s2 of a # b # r \<Rightarrow> if a = 48 \<and> (b = 120 \<or> b = 88) then r else s2
                | _ \<Rightarrow> s2);
          ds = takeWhile (\<lambda>c. hex_value c \<noteq> None) s3
      in if ds = [] then None
         else Some ((if neg then - 1 else 1) * int (hex_number ds)))"

definition toUint8 :: "int option \<Rightarrow> byte" where
  \<comment> \<open>storing a number into a \<^verbatim>\<open>Uint8Array\<close>: \<^verbatim>\<open>NaN\<close> becomes 0, an integer wraps modulo 256\<close>
  "toUint8 v = (case v of None \<Rightarrow> 0 | Some i \<Rightarrow> of_int i)"

definition fromHex :: "jsstring \<Rightarrow> byte list option" where
  \<comment> \<open>\<^verbatim>\<open>new Uint8Array(h.match(/.{2}/g)!.map(b => parseInt(b, 16)))\<close>; \<open>None\<close> is the
      \<^verbatim>\<open>TypeError\<close> of calling \<^verbatim>\<open>map\<close> on \<^verbatim>\<open>null\<close>\<close>
  "fromHex h = map_option (map (\<lambda>b. toUint8 (parseInt16 b))) (match_pairs h)"

fun split_on :: "'a \<Rightarrow> 'a list \<Rightarrow> 'a list list" where
  \<comment> \<open>\<^verbatim>\<open>s.split(c)\<close> for a one-unit separator\<close>
  "split_on c [] = [[]]"
| "split_on c (x # xs) =
     (if x = c then [] # split_on c xs
      else (case split_on c xs of [] \<Rightarrow> [[x]] | p # ps \<Rightarrow> (x # p) # ps))"

subsection \<open>Platform and configuration\<close>

text \<open>
  The cryptographic primitives are the runtime's (\<^verbatim>\<open>crypto.subtle\<close>), not the
  repository's: they are parameters of the model. \<open>aes_gcm_encrypt\<close> and
  \<open>aes_gcm_decrypt\<close> stand for \<^verbatim>\<open>importKey\<close> followed by \<^verbatim>\<open>encrypt\<close> or \<^verbatim>\<open>decrypt\<close> with
  \<^verbatim>\<open>{ name: 'AES-GCM', iv }\<close>, on the raw key bytes, the nonce and the data; \<open>None\<close> is
  a rejected promise (a key or nonce the runtime refuses, a failed authentication tag).
  \<open>hmac_sha1\<close> stands for \<^verbatim>\<open>importKey\<close> and \<^verbatim>\<open>sign('HMAC', ...)\<close> with SHA-1, on the raw
  key and the message; \<open>None\<close> is a key the runtime refuses.
\<close>

record platform =
  aes_gcm_encrypt :: "byte list \<Rightarrow> byte list \<Rightarrow> byte list \<Rightarrow> byte list option"
  aes_gcm_decrypt :: "byte list \<Rightarrow> byte list \<Rightarrow> byte list \<Rightarrow> byte list option"
  hmac_sha1 :: "byte list \<Rightarrow> byte list \<Rightarrow> byte list option"

record config =
  ENCRYPTION_KEY :: jsstring
  TWILIO_AUTH_TOKEN :: jsstring
  ANTHONY_PHONE :: jsstring

definition platform_contract :: "platform \<Rightarrow> bool" where
  \<comment> \<open>what the proofs use of the runtime: with a 32-byte key and a 12-byte nonce AES-GCM
      encryption succeeds, appends a 16-byte tag, and decryption under the same key and
      nonce gives the plaintext back; HMAC-SHA1 under a key that is not empty gives 20
      bytes\<close>
  "platform_contract P \<longleftrightarrow>
     (\<forall>key iv pt. length key = 32 \<and> length iv = 12 \<longrightarrow>
        (\<exists>ct. aes_gcm_encrypt P key iv pt = Some ct \<and> length ct = length pt + 16
              \<and> aes_gcm_decrypt P key iv ct = Some pt))
     \<and> (\<forall>key msg. key \<noteq> [] \<longrightarrow> (\<exists>mac. hmac_sha1 P key msg = Some mac \<and> length mac = 20))"

subsection \<open>Envelope codec\<close>

definition getAesKey :: "config \<Rightarrow> byte list option" where
  \<comment> \<open>the key bytes handed to \<^verbatim>\<open>importKey\<close>\<close>
  "getAesKey cfg = fromHex (ENCRYPTION_KEY cfg)"

definition encrypt :: "platform \<Rightarrow> config \<Rightarrow> byte list \<Rightarrow> jsstring \<Rightarrow> jsstring option" where
  \<comment> \<open>\<open>iv\<close> is the draw of \<^verbatim>\<open>crypto.getRandomValues(new Uint8Array(12))\<close>; \<open>None\<close> is a
      thrown exception\<close>
  "encrypt P cfg iv plaintext =
     (case getAesKey cfg of
        None \<Rightarrow> None
      | Some key \<Rightarrow>
          (case aes_gcm_encrypt P key iv (TextEncoder_encode plaintext) of
             None \<Rightarrow> None
           | Some ct \<Rightarrow> Some (toHex iv @ js '':'' @ toHex ct)))"

definition decrypt_try :: "platform \<Rightarrow> config \<Rightarrow> jsstring \<Rightarrow> jsstring option" where
  \<comment> \<open>the body of the \<^verbatim>\<open>try\<close> block; \<open>None\<close> is any exception thrown inside it\<close>
  "decrypt_try P cfg stored =
     (case split_on 58 stored of
        ivHex # ctHex # _ \<Rightarrow>
          (case getAesKey cfg of
             None \<Rightarrow> None
           | Some key \<Rightarrow>
               (case fromHex ivHex of
                  None \<Rightarrow> None
                | Some iv \<Rightarrow>
                    (case fromHex ctHex of
                       None \<Rightarrow> None
                     | Some ct \<Rightarrow>
                         (case aes_gcm_decrypt P key iv ct of
                            None \<Rightarrow> None
                          | Some pt \<Rightarrow> Some (TextDecoder_decode pt)))))
      | _ \<Rightarrow> None)"

definition decrypt :: "platform \<Rightarrow> config \<Rightarrow> jsstring \<Rightarrow> jsstring" where
  "decrypt P cfg stored =
     (if 58 \<notin> set stored then stored
      else (case decrypt_try P cfg stored of None \<Rightarrow> stored | Some plaintext \<Rightarrow> plaintext))"

definition decryptField :: "platform \<Rightarrow> config \<Rightarrow> jsstring \<Rightarrow> jsstring" where
  \<comment> \<open>\<^verbatim>\<open>broadcast-sms\<close> carries the text of \<open>decrypt\<close> under this name\<close>
  "decryptField = decrypt"

subsection \<open>The record store\<close>

text \<open>
  The tables the handlers touch, as the state of one store. Operations on it succeed,
  except where a handler looks at the error of an operation; the list of operations a
  handler makes is returned next to the new state.
\<close>

record rate_row =
  count :: int
  window_start :: int  \<comment> \<open>milliseconds since the epoch\<close>

record subscriber =
  sub_id :: nat
  name :: jsstring  \<comment> \<open>an envelope, or legacy plaintext\<close>
  phone :: jsstring  \<comment> \<open>an envelope, or legacy plaintext\<close>
  pin_code :: "jsstring option"
  how_met :: "jsstring option"
  active :: bool

record store =
  rate_limits :: "jsstring \<rightharpoonup> rate_row"  \<comment> \<open>by primary key \<^verbatim>\<open>id\<close>\<close>
  pins :: "(jsstring \<times> jsstring option) list"  \<comment> \<open>\<^verbatim>\<open>code\<close> and \<^verbatim>\<open>label\<close>\<close>
  subscribers :: "subscriber list"
  inbound_sms :: "(jsstring \<times> jsstring) list"  \<comment> \<open>\<^verbatim>\<open>from_number\<close> and \<^verbatim>\<open>body\<close>\<close>

datatype store_op =
  Select_rate_limit jsstring
  | Update_rate_limit jsstring rate_row
  | Insert_rate_limit jsstring rate_row
  | Select_pin jsstring
  | Select_subscribers
  | Update_subscriber_active nat bool
  | Insert_inbound_sms jsstring jsstring
  | Upsert_pin jsstring "jsstring option"
  | Upsert_subscriber subscriber

subsection \<open>verify-pin: request, store and rate limiter\<close>

text \<open>
  The body of a request as \<^verbatim>\<open>req.json()\<close> delivers it. A number carries the text that
  \<^verbatim>\<open>Number.prototype.toString\<close> gives for it; an object is the list of its own
  properties.
\<close>

datatype json =
  JNull | JBool bool | JNum jsstring | JStr jsstring | JArr "json list"
  | JObj "(jsstring \<times> json) list"

fun join_with :: "jsstring \<Rightarrow> jsstring list \<Rightarrow> jsstring" where
  "join_with sep [] = []"
| "join_with sep [x] = x"
| "join_with sep (x # y # r) = x @ sep @ join_with sep (y # r)"

fun js_toString :: "json \<Rightarrow> jsstring option" where
  \<comment> \<open>\<^verbatim>\<open>v.toString()\<close>; \<open>None\<close> is a \<^verbatim>\<open>TypeError\<close>: \<^verbatim>\<open>null\<close> has no method, and an own
      property \<^verbatim>\<open>toString\<close> of a parsed object is never a function\<close>
  "js_toString JNull = None"
| "js_toString (JBool b) = Some (if b then js ''true'' else js ''false'')"
| "js_toString (JNum r) = Some r"
| "js_toString (JStr s) = Some s"
| "js_toString (JArr xs) =
     map_option (join_with (js '',''))
       (those (map (\<lambda>x. if x = JNull then Some [] else js_toString x) xs))"
| "js_toString (JObj kvs) =
     (if js ''toString'' \<in> fst ` set kvs then None else Some (js ''[object Object]''))"

definition parse_pin :: "json \<Rightarrow> jsstring option" where
  \<comment> \<open>\<^verbatim>\<open>(body.pin ?? '').toString().trim().toUpperCase()\<close>; \<open>None\<close> is a \<^verbatim>\<open>TypeError\<close>
      (reading a property of \<^verbatim>\<open>null\<close>, or \<^verbatim>\<open>toString\<close> not being callable)\<close>
  "parse_pin body =
     (case body of
        JNull \<Rightarrow> None
      | _ \<Rightarrow>
          (let v = (case (case body of JObj kvs \<Rightarrow> map_of kvs (js ''pin'') | _ \<Rightarrow> None) of
                      None \<Rightarrow> JStr []
                    | Some JNull \<Rightarrow> JStr []
                    | Some x \<Rightarrow> x)
           in map_option (\<lambda>s. toUpperCase (trim s)) (js_toString v)))"

record pin_request =
  req_method :: jsstring
  json_body :: "json option"  \<comment> \<open>\<open>None\<close>: \<^verbatim>\<open>req.json()\<close> rejects\<close>
  x_forwarded_for :: "jsstring option"  \<comment> \<open>\<^verbatim>\<open>req.headers.get('x-forwarded-for')\<close>\<close>

datatype pin_body = Ok_text | Method_not_allowed | Valid bool

record pin_response =
  status :: nat
  body :: pin_body

datatype verdict = Allowed | Throttled

definition WINDOW_MS :: int where
  "WINDOW_MS = 5 * 60 * 1000"

definition MAX_ATTEMPTS :: int where
  "MAX_ATTEMPTS = 10"

definition check_rate_limit ::
  "(jsstring \<rightharpoonup> rate_row) \<Rightarrow> jsstring \<Rightarrow> int
     \<Rightarrow> verdict \<times> (jsstring \<rightharpoonup> rate_row) \<times> store_op list" where
  \<comment> \<open>the rate-limit block of the handler: table, key and clock in; verdict, table and the
      store operations out\<close>
  "check_rate_limit rl rlKey now =
     (let windowStart = now - WINDOW_MS
      in case rl rlKey of
           Some existing \<Rightarrow>
             if window_start existing > windowStart then
               (if count existing \<ge> MAX_ATTEMPTS
                then (Throttled, rl, [Select_rate_limit rlKey])
                else (let row = existing\<lparr>count := count existing + 1\<rparr>
                      in (Allowed, rl(rlKey \<mapsto> row),
                          [Select_rate_limit rlKey, Update_rate_limit rlKey row])))
             else (let row = \<lparr>count = 1, window_start = now\<rparr>
                   in (Allowed, rl(rlKey \<mapsto> row),
                       [Select_rate_limit rlKey, Update_rate_limit rlKey row]))
         | None \<Rightarrow>
             (let row = \<lparr>count = 1, window_start = now\<rparr>
              in (Allowed, rl(rlKey \<mapsto> row),
                  [Select_rate_limit rlKey, Insert_rate_limit rlKey row])))"

definition client_key :: "pin_request \<Rightarrow> jsstring" where
  \<comment> \<open>\<^verbatim>\<open>rlKey\<close>: the first entry of \<^verbatim>\<open>x-forwarded-for\<close>, or \<^verbatim>\<open>unknown\<close>\<close>
  "client_key req =
     (let ip = (case x_forwarded_for req of
                  None \<Rightarrow> js ''unknown''
                | Some h \<Rightarrow> (case split_on 44 h of [] \<Rightarrow> [] | first # _ \<Rightarrow> trim first))
      in ip @ js '':verify-pin'')"

definition verify_pin ::
  "store \<Rightarrow> int \<Rightarrow> pin_request \<Rightarrow> pin_response \<times> store \<times> store_op list" where
  \<comment> \<open>the handler: store and clock in; response, store and store operations out\<close>
  "verify_pin db now req =
     (if req_method req = js ''OPTIONS'' then (\<lparr>status = 200, body = Ok_text\<rparr>, db, [])
      else if req_method req \<noteq> js ''POST''
      then (\<lparr>status = 405, body = Method_not_allowed\<rparr>, db, [])
      else
        (case json_body req of
           None \<Rightarrow> (\<lparr>status = 400, body = Valid False\<rparr>, db, [])
         | Some b \<Rightarrow>
             (case parse_pin b of
                None \<Rightarrow> (\<lparr>status = 400, body = Valid False\<rparr>, db, [])
              | Some pin \<Rightarrow>
                  if pin = [] then (\<lparr>status = 200, body = Valid False\<rparr>, db, [])
                  else
                    (case check_rate_limit (rate_limits db) (client_key req) now of
                       (Throttled, rl, ops) \<Rightarrow>
                         (\<lparr>status = 429, body = Valid False\<rparr>, db\<lparr>rate_limits := rl\<rparr>, ops)
                     | (Allowed, rl, ops) \<Rightarrow>
                         (\<lparr>status = 200, body = Valid (pin \<in> fst ` set (pins db))\<rparr>,
                          db\<lparr>rate_limits := rl\<rparr>, ops @ [Select_pin pin])))))"

fun run_checks ::
  "(jsstring \<rightharpoonup> rate_row) \<Rightarrow> jsstring \<Rightarrow> int list \<Rightarrow> verdict list \<times> (jsstring \<rightharpoonup> rate_row)"
  where
  \<comment> \<open>the rate-limit block run once per clock reading, in order, for one key\<close>
  "run_checks rl k [] = ([], rl)"
| "run_checks rl k (t # ts) =
     (case check_rate_limit rl k t of
        (v, rl', _) \<Rightarrow> (case run_checks rl' k ts of (vs, rl'') \<Rightarrow> (v # vs, rl'')))"

subsection \<open>Form bodies\<close>

fun percent_decode :: "byte list \<Rightarrow> byte list" where
  \<comment> \<open>a \<open>%\<close> followed by two hex digits is the byte they spell; every other byte stays\<close>
  "percent_decode (p # a # b # rest) =
     (if p = 37 \<and> hex_value (unat a) \<noteq> None \<and> hex_value (unat b) \<noteq> None
      then of_nat (16 * the (hex_value (unat a)) + the (hex_value (unat b))) # percent_decode rest
      else p # percent_decode (a # b # rest))"
| "percent_decode (p # rest) = p # percent_decode rest"
| "percent_decode [] = []"

definition form_decode :: "byte list \<Rightarrow> jsstring" where
  \<comment> \<open>a name or a value: \<open>+\<close> is a space, then percent-decoding, then UTF-8 decoding\<close>
  "form_decode b =
     utf8_decode_without_BOM (percent_decode (map (\<lambda>c. if c = 43 then 32 else c) b))"

definition parse_urlencoded :: "byte list \<Rightarrow> (jsstring \<times> jsstring) list" where
  \<comment> \<open>the \<^verbatim>\<open>application/x-www-form-urlencoded\<close> parser of the URL Standard\<close>
  "parse_urlencoded input =
     map (\<lambda>bytes. (form_decode (takeWhile (\<lambda>c. c \<noteq> 61) bytes),
                    form_decode (drop 1 (dropWhile (\<lambda>c. c \<noteq> 61) bytes))))
       (filter (\<lambda>bytes. bytes \<noteq> []) (split_on 38 input))"

definition URLSearchParams :: "jsstring \<Rightarrow> (jsstring \<times> jsstring) list" where
  \<comment> \<open>\<^verbatim>\<open>new URLSearchParams(init)\<close>: the list of name-value pairs, in order\<close>
  "URLSearchParams init =
     parse_urlencoded
       (TextEncoder_encode (case init of [] \<Rightarrow> [] | c # r \<Rightarrow> if c = 63 then r else init))"

definition params_keys :: "(jsstring \<times> jsstring) list \<Rightarrow> jsstring list" where
  \<comment> \<open>\<^verbatim>\<open>[...params.keys()]\<close>: a name once for each pair that has it\<close>
  "params_keys params = map fst params"

definition params_get :: "(jsstring \<times> jsstring) list \<Rightarrow> jsstring \<Rightarrow> jsstring option" where
  \<comment> \<open>\<^verbatim>\<open>params.get(k)\<close>: the value of the first pair named \<open>k\<close>, or \<^verbatim>\<open>null\<close>\<close>
  "params_get params k = map_of params k"

subsection \<open>Base64\<close>

definition b64_char :: "nat \<Rightarrow> jschar" where
  "b64_char n =
     (if n < 26 then 65 + n else if n < 52 then 71 + n else if n < 62 then n - 4
      else if n = 62 then 43 else 47)"

fun base64 :: "nat list \<Rightarrow> jsstring" where
  "base64 (a # b # c # r) =
     [b64_char (a div 4), b64_char (a mod 4 * 16 + b div 16),
      b64_char (b mod 16 * 4 + c div 64), b64_char (c mod 64)] @ base64 r"
| "base64 [a, b] =
     [b64_char (a div 4), b64_char (a mod 4 * 16 + b div 16), b64_char (b mod 16 * 4), 61]"
| "base64 [a] = [b64_char (a div 4), b64_char (a mod 4 * 16), 61, 61]"
| "base64 [] = []"

definition btoa_fromCharCode :: "byte list \<Rightarrow> jsstring" where
  \<comment> \<open>\<^verbatim>\<open>btoa(String.fromCharCode(...bytes))\<close>\<close>
  "btoa_fromCharCode bytes = base64 (map unat bytes)"

subsection \<open>Twilio signature\<close>

record sms_request =
  url :: jsstring
  twilio_signature :: "jsstring option"  \<comment> \<open>\<^verbatim>\<open>req.headers.get('X-Twilio-Signature')\<close>\<close>

definition signed_string :: "jsstring \<Rightarrow> jsstring \<Rightarrow> jsstring" where
  \<comment> \<open>the string \<^verbatim>\<open>str\<close> that \<open>verifyTwilio\<close> rebuilds\<close>
  "signed_string u rawBody =
     (let params = URLSearchParams rawBody;
          sorted = sort (params_keys params)
      in foldl (\<lambda>str k. str @ k @ (case params_get params k of None \<Rightarrow> [] | Some v \<Rightarrow> v))
           u sorted)"

definition expected_signature :: "platform \<Rightarrow> config \<Rightarrow> jsstring \<Rightarrow> jsstring \<Rightarrow> jsstring option"
  where
  \<comment> \<open>\<open>None\<close>: the runtime refuses the key\<close>
  "expected_signature P cfg u rawBody =
     map_option btoa_fromCharCode
       (hmac_sha1 P (TextEncoder_encode (TWILIO_AUTH_TOKEN cfg))
          (TextEncoder_encode (signed_string u rawBody)))"

definition verifyTwilio :: "platform \<Rightarrow> config \<Rightarrow> sms_request \<Rightarrow> jsstring \<Rightarrow> bool option" where
  \<comment> \<open>\<open>None\<close>: an exception of the runtime leaves the function\<close>
  "verifyTwilio P cfg req rawBody =
     (case twilio_signature req of
        None \<Rightarrow> Some False
      | Some sig \<Rightarrow>
          if sig = [] then Some False
          else map_option (\<lambda>expected. expected = sig)
                 (expected_signature P cfg (url req) rawBody))"

subsection \<open>Phone numbers\<close>

definition is_digit :: "jschar \<Rightarrow> bool" where
  "is_digit c = (48 \<le> c \<and> c \<le> 57)"

definition normalisePhone :: "jsstring \<Rightarrow> jsstring option" where
  "normalisePhone raw =
     (let stripped = filter (\<lambda>c. \<not> (is_white_space c \<or> c = 45 \<or> c = 46 \<or> c = 40 \<or> c = 41))
                       (trim raw);
          digits = (case stripped of [] \<Rightarrow> [] | c # r \<Rightarrow> if c = 43 then r else stripped)
      in if \<not> (list_all is_digit digits \<and> 7 \<le> length digits \<and> length digits \<le> 15) then None
         else if take 1 stripped = [43] then Some stripped
         else if length digits = 10 then Some (js ''+1'' @ digits)
         else if length digits = 11 \<and> take 1 digits = [49] then Some (js ''+'' @ digits)
         else Some (js ''+'' @ digits))"

subsection \<open>handle-inbound-sms\<close>

text \<open>
  \<open>parsed_subscriber\<close> is what \<^verbatim>\<open>parseSubscriber\<close> returns, \<open>None\<close> for \<^verbatim>\<open>null\<close>. \<open>sms_env\<close>
  is what one run of the handler takes from outside the store: the text-extraction
  oracle, the random draws, the id of a new row and the error, if any, that the store
  answers the upsert of a subscriber with.
\<close>

record parsed_subscriber =
  parsed_name :: "jsstring option"
  parsed_phone :: "jsstring option"
  parsed_how_met :: "jsstring option"

record sms_env =
  parseSubscriber :: "jsstring \<Rightarrow> parsed_subscriber"
  pin_draw :: "byte \<times> byte \<times> byte \<times> byte"
  iv_name :: "byte list"
  iv_phone :: "byte list"
  iv_how_met :: "byte list"
  new_id :: nat
  upsert_error :: "jsstring option"

datatype sms_body =
  Plain jsstring
  | Unsubscribed
  | Resubscribed
  | Stored_no_subscriber
  | Phone_not_parsed "jsstring option"
  | Upsert_failed jsstring
  | Added "jsstring option" jsstring "jsstring option" jsstring
  | Empty_reply

record sms_response =
  sms_status :: nat
  sms_body :: sms_body

definition twiml :: "sms_body \<Rightarrow> sms_response" where
  "twiml xml = \<lparr>sms_status = 200, sms_body = xml\<rparr>"

fun find_subscriber :: "(jsstring \<Rightarrow> jsstring) \<Rightarrow> subscriber list \<Rightarrow> jsstring \<Rightarrow> subscriber option"
  where
  \<comment> \<open>the loop \<^verbatim>\<open>for (const s of subs) if (await decrypt(s.phone) === from) { ...; break }\<close>:
      the row the loop stops at\<close>
  "find_subscriber dec [] target = None"
| "find_subscriber dec (s # subs) target =
     (if dec (phone s) = target then Some s else find_subscriber dec subs target)"

definition set_active :: "nat \<Rightarrow> bool \<Rightarrow> subscriber list \<Rightarrow> subscriber list" where
  \<comment> \<open>\<^verbatim>\<open>update({ active }).eq('id', id)\<close>\<close>
  "set_active i a subs = map (\<lambda>s. if sub_id s = i then s\<lparr>active := a\<rparr> else s) subs"

definition toggle_subscription ::
  "platform \<Rightarrow> config \<Rightarrow> store \<Rightarrow> jsstring \<Rightarrow> bool \<Rightarrow> store \<times> store_op list" where
  \<comment> \<open>the STOP and START branches: select, decrypt and compare, update the first match\<close>
  "toggle_subscription P cfg db from a =
     (case find_subscriber (decrypt P cfg) (subscribers db) from of
        None \<Rightarrow> (db, [Select_subscribers])
      | Some s \<Rightarrow>
          (db\<lparr>subscribers := set_active (sub_id s) a (subscribers db)\<rparr>,
           [Select_subscribers, Update_subscriber_active (sub_id s) a]))"

definition upsert_pin ::
  "jsstring \<Rightarrow> jsstring option \<Rightarrow> (jsstring \<times> jsstring option) list
     \<Rightarrow> (jsstring \<times> jsstring option) list" where
  \<comment> \<open>\<^verbatim>\<open>upsert({ code, label }, { onConflict: 'code' })\<close>\<close>
  "upsert_pin code label rows =
     (if code \<in> fst ` set rows then map (\<lambda>(c, l). if c = code then (c, label) else (c, l)) rows
      else rows @ [(code, label)])"

definition upsert_subscriber :: "subscriber \<Rightarrow> subscriber list \<Rightarrow> subscriber list" where
  \<comment> \<open>\<^verbatim>\<open>upsert(row, { onConflict: 'phone' })\<close>: a row with the same stored phone takes the new
      values and keeps its id\<close>
  "upsert_subscriber row subs =
     (if phone row \<in> phone ` set subs
      then map (\<lambda>s. if phone s = phone row then row\<lparr>sub_id := sub_id s\<rparr> else s) subs
      else subs @ [row])"

definition truthy :: "jsstring option \<Rightarrow> bool" where
  \<comment> \<open>a string or \<^verbatim>\<open>null\<close> as a condition\<close>
  "truthy v = (case v of None \<Rightarrow> False | Some s \<Rightarrow> s \<noteq> [])"

definition server_error :: sms_response where
  \<comment> \<open>the answer of the server to an exception that leaves the handler\<close>
  "server_error = \<lparr>sms_status = 500, sms_body = Plain (js ''Internal Server Error'')\<rparr>"

definition add_subscriber ::
  "platform \<Rightarrow> config \<Rightarrow> sms_env \<Rightarrow> store \<Rightarrow> jsstring \<Rightarrow> jsstring
     \<Rightarrow> sms_response \<times> store \<times> store_op list" where
  \<comment> \<open>the branch for a text from \<^verbatim>\<open>ANTHONY_PHONE\<close>\<close>
  "add_subscriber P cfg env db from text =
     (let parsed = parseSubscriber env text
      in if \<not> truthy (parsed_name parsed) \<and> \<not> truthy (parsed_phone parsed)
         then (twiml Stored_no_subscriber,
               db\<lparr>inbound_sms := inbound_sms db @ [(from, text)]\<rparr>,
               [Insert_inbound_sms from text])
         else
           (case (if truthy (parsed_phone parsed)
                  then normalisePhone (the (parsed_phone parsed)) else None) of
              None \<Rightarrow> (twiml (Phone_not_parsed (parsed_name parsed)), db, [])
            | Some e164 \<Rightarrow>
                (let pin = (case pin_draw env of (b0, b1, b2, b3) \<Rightarrow> generatePin b0 b1 b2 b3);
                     encName = encrypt P cfg (iv_name env)
                                 (case parsed_name parsed of None \<Rightarrow> [] | Some n \<Rightarrow> n);
                     encPhone = encrypt P cfg (iv_phone env) e164;
                     encHowMet = (if truthy (parsed_how_met parsed)
                                  then map_option Some
                                         (encrypt P cfg (iv_how_met env)
                                            (the (parsed_how_met parsed)))
                                  else Some None)
                 in case (encName, encPhone, encHowMet) of
                      (Some n, Some p, Some h) \<Rightarrow>
                        (let db1 = db\<lparr>pins := upsert_pin pin (parsed_name parsed) (pins db)\<rparr>;
                             row = \<lparr>sub_id = new_id env, name = n, phone = p,
                                    pin_code = Some pin, how_met = h, active = True\<rparr>
                         in case upsert_error env of
                              Some message \<Rightarrow>
                                (twiml (Upsert_failed message), db1,
                                 [Upsert_pin pin (parsed_name parsed), Upsert_subscriber row])
                            | None \<Rightarrow>
                                (twiml (Added (parsed_name parsed) e164
                                          (if truthy (parsed_how_met parsed)
                                           then parsed_how_met parsed else None) pin),
                                 db1\<lparr>subscribers := upsert_subscriber row (subscribers db1)\<rparr>,
                                 [Upsert_pin pin (parsed_name parsed), Upsert_subscriber row]))
                    | _ \<Rightarrow> (server_error, db, []))))"

definition handle_inbound_sms ::
  "platform \<Rightarrow> config \<Rightarrow> sms_env \<Rightarrow> store \<Rightarrow> sms_request \<Rightarrow> jsstring
     \<Rightarrow> sms_response \<times> store \<times> store_op list" where
  \<comment> \<open>the handler: store, request and raw body in; response, store and store operations
      out\<close>
  "handle_inbound_sms P cfg env db req rawBody =
     (case verifyTwilio P cfg req rawBody of
        None \<Rightarrow> (server_error, db, [])
      | Some False \<Rightarrow> (\<lparr>sms_status = 403, sms_body = Plain (js ''Forbidden'')\<rparr>, db, [])
      | Some True \<Rightarrow>
          (let params = URLSearchParams rawBody;
               from = (case params_get params (js ''From'') of None \<Rightarrow> [] | Some v \<Rightarrow> trim v);
               text = (case params_get params (js ''Body'') of None \<Rightarrow> [] | Some v \<Rightarrow> trim v);
               cmd = toUpperCase text
           in if cmd \<in> set [js ''STOP'', js ''STOPALL'', js ''UNSUBSCRIBE'', js ''CANCEL'',
                               js ''END'', js ''QUIT'']
              then (case toggle_subscription P cfg db from False of
                      (db', ops) \<Rightarrow> (twiml Unsubscribed, db', ops))
              else if cmd \<in> set [js ''START'', js ''YES'', js ''UNSTOP'']
              then (case toggle_subscription P cfg db from True of
                      (db', ops) \<Rightarrow> (twiml Resubscribed, db', ops))
              else if from = ANTHONY_PHONE cfg then add_subscriber P cfg env db from text
              else (twiml Empty_reply,
                    db\<lparr>inbound_sms := inbound_sms db @ [(from, text)]\<rparr>,
                    [Insert_inbound_sms from text])))"

definition spec_sign :: "platform \<Rightarrow> jsstring \<Rightarrow> jsstring \<Rightarrow> jsstring \<Rightarrow> jsstring option" where
  \<comment> \<open>the signature as the specification words it: base64 of the HMAC-SHA1, under the
      secret, of the URL followed by each distinct key, the keys sorted lexicographically
      by code point, and the first value of that key\<close>
  "spec_sign P u rawBody secret =
     (let params = URLSearchParams rawBody;
          keys = sort_key string_code_points (remdups (params_keys params));
          canonical = u @ concat (map (\<lambda>k. k @ (case params_get params k of
                                                     None \<Rightarrow> [] | Some v \<Rightarrow> v)) keys)
      in map_option btoa_fromCharCode
           (hmac_sha1 P (TextEncoder_encode secret) (TextEncoder_encode canonical)))"

subsection \<open>A small platform instance\<close>

text \<open>
  An instance of the platform interface on which the definitions can be run: the
  ``ciphertext'' is the plaintext followed by a 16-byte checksum of key, nonce and
  plaintext, the ``MAC'' is twenty copies of a one-byte rolling hash of key and
  message. It is neither AES-GCM nor HMAC-SHA1; it meets \<open>platform_contract\<close>, which
  is all the theorems below ask of a platform.
\<close>

definition toy_tag :: "byte list \<Rightarrow> byte list \<Rightarrow> byte list \<Rightarrow> byte list" where
  "toy_tag key iv pt = replicate 16 (sum_list key + sum_list iv + sum_list pt)"

definition toy_encrypt :: "byte list \<Rightarrow> byte list \<Rightarrow> byte list \<Rightarrow> byte list option" where
  "toy_encrypt key iv pt =
     (if length key = 32 \<and> length iv = 12 then Some (pt @ toy_tag key iv pt) else None)"

definition toy_decrypt :: "byte list \<Rightarrow> byte list \<Rightarrow> byte list \<Rightarrow> byte list option" where
  "toy_decrypt key iv ct =
     (if length key = 32 \<and> length iv = 12 \<and> 16 \<le> length ct
      then (let pt = take (length ct - 16) ct
            in if drop (length ct - 16) ct = toy_tag key iv pt then Some pt else None)
      else None)"

definition toy_hmac :: "byte list \<Rightarrow> byte list \<Rightarrow> byte list option" where
  "toy_hmac key msg =
     (if key = [] then None
      else Some (replicate 20 (sum_list key + foldl (\<lambda>acc b. 3 * acc + b) 0 msg)))"

definition toy_platform :: platform where
  "toy_platform =
     \<lparr>aes_gcm_encrypt = toy_encrypt, aes_gcm_decrypt = toy_decrypt, hmac_sha1 = toy_hmac\<rparr>"

definition toy_config :: config where
  "toy_config =
     \<lparr>ENCRYPTION_KEY = js ''000102030405060708090a0b0c0d0e0f101112131415161718191a1b1c1d1e1f'',
      TWILIO_AUTH_TOKEN = js ''12345'',
      ANTHONY_PHONE = js ''+16135551234''\<rparr>"

subsection \<open>Sample requests and stores\<close>

definition pin_post :: "jsstring \<Rightarrow> pin_request" where
  \<comment> \<open>a POST of \<^verbatim>\<open>{"pin": p}\<close> that came through one proxy\<close>
  "pin_post p =
     \<lparr>req_method = js ''POST'', json_body = Some (JObj [(js ''pin'', JStr p)]),
      x_forwarded_for = Some (js ''203.0.113.7, 10.0.0.1'')\<rparr>"

definition throttled_store :: store where
  \<comment> \<open>the client above has used its ten attempts in a window opened at time 1000\<close>
  "throttled_store =
     \<lparr>rate_limits = [js ''203.0.113.7:verify-pin'' \<mapsto> \<lparr>count = 10, window_start = 1000\<rparr>],
      pins = [(js ''ABC123'', Some (js ''Ada''))], subscribers = [], inbound_sms = []\<rparr>"

definition sample_url :: jsstring where
  "sample_url = js ''https://x.test/f''"

definition stop_body :: jsstring where
  "stop_body = js ''From=%2B4917612345&Body=stop''"

definition sub_ada :: subscriber where
  \<comment> \<open>a legacy plaintext row\<close>
  "sub_ada =
     \<lparr>sub_id = 1, name = js ''Ada'', phone = js ''+16475551234'', pin_code = None,
      how_met = None, active = True\<rparr>"

definition sub_bo :: subscriber where
  \<comment> \<open>the phone is the envelope, on the small platform, of \<^verbatim>\<open>+4917612345\<close>\<close>
  "sub_bo =
     \<lparr>sub_id = 2, name = js ''Bo'',
      phone = js ''000102030405060708090a0b:2b3439313736313233343567676767676767676767676767676767'',
      pin_code = None, how_met = None, active = True\<rparr>"

definition sub_cy :: subscriber where
  \<comment> \<open>the phone is the envelope, on the small platform, of \<^verbatim>\<open>+13065559999\<close>\<close>
  "sub_cy =
     \<lparr>sub_id = 3, name = js ''Cy'',
      phone = js ''0c0d0e0f1011121314151617:2b31333036353535393939393a3a3a3a3a3a3a3a3a3a3a3a3a3a3a3a'',
      pin_code = None, how_met = None, active = True\<rparr>"

definition sample_subscribers :: "subscriber list" where
  "sample_subscribers = [sub_ada, sub_bo, sub_cy]"

definition sample_store :: store where
  "sample_store =
     \<lparr>rate_limits = Map.empty, pins = [], subscribers = sample_subscribers, inbound_sms = []\<rparr>"

definition sample_env :: sms_env where
  "sample_env =
     \<lparr>parseSubscriber = (\<lambda>text. \<lparr>parsed_name = None, parsed_phone = None, parsed_how_met = None\<rparr>),
      pin_draw = (0, 0, 1, 0), iv_name = map of_nat [0..<12], iv_phone = map of_nat [12..<24],
      iv_how_met = map of_nat [24..<36], new_id = 4, upsert_error = None\<rparr>"

subsection \<open>Auxiliary notions of the proofs\<close>

definition toUpperCase_unit :: "jschar \<Rightarrow> jschar" where
  \<comment> \<open>upper case in the Basic Latin block\<close>
  "toUpperCase_unit c = (if 97 \<le> c \<and> c \<le> 122 then c - 32 else c)"

definition pin_digit :: "nat \<Rightarrow> jschar" where
  \<comment> \<open>the digits \<^verbatim>\<open>0-9A-Z\<close>\<close>
  "pin_digit d = (if d < 10 then 48 + d else 55 + d)"

primrec last_digits :: "nat \<Rightarrow> nat \<Rightarrow> nat list" where
  \<comment> \<open>the last \<open>k\<close> base-36 digits of \<open>n\<close>, most significant first\<close>
  "last_digits 0 n = []"
| "last_digits (Suc k) n = last_digits k (n div 36) @ [n mod 36]"

definition tail_pad :: "nat \<Rightarrow> nat \<Rightarrow> jsstring" where
  "tail_pad k n = padStart k (digit36 0) (slice_last k (toStringRadix 36 n))"

definition scalar_value :: "nat \<Rightarrow> bool" where
  \<comment> \<open>a Unicode scalar value: a code point that is not a surrogate\<close>
  "scalar_value c = (c < 1114112 \<and> \<not> is_surrogate c)"

fun well_formed_utf16 :: "jsstring \<Rightarrow> bool" where
  \<comment> \<open>every surrogate is half of a pair, every code unit is below \<open>65536\<close>\<close>
  "well_formed_utf16 [] = True"
| "well_formed_utf16 [u] = (u < 65536 \<and> \<not> is_surrogate u)"
| "well_formed_utf16 (h # l # r) =
     (if is_high_surrogate h \<and> is_low_surrogate l then well_formed_utf16 r
      else h < 65536 \<and> \<not> is_surrogate h \<and> well_formed_utf16 (l # r))"

definition hex2 :: "byte \<Rightarrow> jsstring" where
  "hex2 x = padStart 2 (of_char CHR ''0'') (toStringRadix 16 (unat x))"

definition key_ok :: "config \<Rightarrow> bool" where
  \<comment> \<open>\<^verbatim>\<open>ENCRYPTION_KEY\<close> reads as the 32 bytes of an AES-256 key\<close>
  "key_ok cfg = (case getAesKey cfg of None \<Rightarrow> False | Some key \<Rightarrow> length key = 32)"

definition well_formed_hex :: "jsstring \<Rightarrow> bool" where
  \<comment> \<open>an even number of hex digits and nothing else\<close>
  "well_formed_hex h = (even (length h) \<and> list_all (\<lambda>c. hex_value c \<noteq> None) h)"

definition hmac_collision :: "platform \<Rightarrow> byte list \<Rightarrow> byte list \<Rightarrow> byte list \<Rightarrow> bool" where
  \<comment> \<open>two different messages with the same HMAC-SHA1 under the key\<close>
  "hmac_collision P key m m' \<longleftrightarrow> m \<noteq> m' \<and> hmac_sha1 P key m = hmac_sha1 P key m'"

definition signed_suffix :: "jsstring \<Rightarrow> jsstring" where
  \<comment> \<open>what \<open>verifyTwilio\<close> appends to the URL\<close>
  "signed_suffix rawBody =
     (let params = URLSearchParams rawBody
      in concat (map (\<lambda>k. k @ (case params_get params k of None \<Rightarrow> [] | Some v \<Rightarrow> v))
                  (sort (params_keys params))))"

definition same_key_order :: "jsstring \<Rightarrow> bool" where
  \<comment> \<open>the keys of the body are in the same order by code point and by UTF-16 code unit\<close>
  "same_key_order rawBody \<longleftrightarrow>
     sort_key string_code_points (params_keys (URLSearchParams rawBody))
     = sort (params_keys (URLSearchParams rawBody))"

section \<open>Properties\<close>

subsection \<open>PIN shape\<close>

lemma toStringRadix_small: "n < r \<Longrightarrow> toStringRadix r n = [digit36 n]"
  by (subst toStringRadix.simps) simp

lemma toStringRadix_big:
  "2 \<le> r \<Longrightarrow> r \<le> n \<Longrightarrow> toStringRadix r n = toStringRadix r (n div r) @ [digit36 (n mod r)]"
  by (subst toStringRadix.simps) simp

lemma tail_pad_zero: "tail_pad k 0 = replicate k (digit36 0)"
  by (cases k)
     (simp_all add: tail_pad_def padStart_def slice_last_def toStringRadix_small
        replicate_append_same)

lemma tail_pad_Suc: "tail_pad (Suc k) n = tail_pad k (n div 36) @ [digit36 (n mod 36)]"
proof (cases "n < 36")
  case True
  then show ?thesis
    by (simp add: tail_pad_zero)
       (simp add: tail_pad_def padStart_def slice_last_def toStringRadix_small)
next
  case False
  then have big: "toStringRadix 36 n = toStringRadix 36 (n div 36) @ [digit36 (n mod 36)]"
    by (simp add: toStringRadix_big)
  show ?thesis
    by (simp add: tail_pad_def padStart_def slice_last_def big Suc_diff_le)
qed

lemma tail_pad_digits: "tail_pad k n = map digit36 (last_digits k n)"
proof (induction k arbitrary: n)
  case 0
  show ?case by (simp add: tail_pad_def padStart_def slice_last_def)
next
  case (Suc k)
  show ?case by (simp add: tail_pad_Suc Suc.IH)
qed

lemma last_digits_lt: "d \<in> set (last_digits k n) \<Longrightarrow> d < 36"
  by (induction k arbitrary: n) auto

lemma length_last_digits: "length (last_digits k n) = k"
  by (induction k arbitrary: n) auto

lemma last_digits_6:
  "last_digits 6 n = [n div 60466176 mod 36, n div 1679616 mod 36, n div 46656 mod 36,
                      n div 1296 mod 36, n div 36 mod 36, n mod 36]"
proof -
  have s: "6 = Suc (Suc (Suc (Suc (Suc (Suc 0)))))" by simp
  show ?thesis unfolding s last_digits.simps by (simp add: div_mult2_eq [symmetric])
qed

lemma digit36_upper: "d < 36 \<Longrightarrow> toUpperCase_unit (digit36 d) = pin_digit d"
  by (auto simp: toUpperCase_unit_def digit36_def pin_digit_def)

lemma pin_digit_alphabet:
  "d < 36 \<Longrightarrow> pin_digit d \<in> set (js ''0123456789ABCDEFGHIJKLMNOPQRSTUVWXYZ'')"
proof -
  have "list_all (\<lambda>d. pin_digit d \<in> set (js ''0123456789ABCDEFGHIJKLMNOPQRSTUVWXYZ'')) [0..<36]"
    by code_simp
  then show "d < 36 \<Longrightarrow> ?thesis" by (simp add: list_all_iff)
qed

lemma string_code_points_ascii:
  "list_all (\<lambda>c. c < 128) s \<Longrightarrow> string_code_points s = s"
  by (induction s rule: string_code_points.induct) (simp_all add: is_high_surrogate_def)

lemma toUpperCase_ascii:
  assumes "list_all (\<lambda>c. c < 128) s"
  shows "toUpperCase s = map toUpperCase_unit s"
proof -
  have "concat (map utf16_units (concat (map toUpperCase_cp t))) = map toUpperCase_unit t"
    if "list_all (\<lambda>c. c < 128) t" for t
    using that
    by (induction t) (auto simp: toUpperCase_cp_def toUpperCase_unit_def utf16_units_def)
  then show ?thesis
    using assms by (simp add: toUpperCase_def string_code_points_ascii)
qed

lemma digit36_ascii: "d < 36 \<Longrightarrow> digit36 d < 128"
  by (simp add: digit36_def)

lemma toStringRadix_ascii:
  assumes "2 \<le> r" and "r \<le> 36"
  shows "list_all (\<lambda>c. c < 128) (toStringRadix r n)"
proof (induction n rule: less_induct)
  case (less n)
  show ?case
  proof (cases "n < r")
    case True
    then show ?thesis
      using assms by (simp add: toStringRadix_small digit36_ascii)
  next
    case False
    then have "n div r < n" using assms by simp
    then have "list_all (\<lambda>c. c < 128) (toStringRadix r (n div r))" by (rule less.IH)
    moreover have "n mod r < 36"
      using assms by (meson less_le_trans mod_less_divisor not_less zero_less_numeral
          le_trans less_imp_le)
    ultimately show ?thesis
      using False assms by (simp add: toStringRadix_big digit36_ascii)
  qed
qed

lemma generatePin_digits:
  "generatePin b0 b1 b2 b3 = map pin_digit (last_digits 6 (getUint32 b0 b1 b2 b3))"
proof -
  let ?n = "getUint32 b0 b1 b2 b3"
  let ?t = "slice_last 6 (toStringRadix 36 ?n)"
  have "list_all (\<lambda>c. c < 128) (toStringRadix 36 ?n)"
    by (rule toStringRadix_ascii) simp_all
  then have a: "list_all (\<lambda>c. c < 128) ?t"
    by (auto simp: slice_last_def list_all_iff dest: in_set_dropD)
  have "generatePin b0 b1 b2 b3 = padStart 6 48 (map toUpperCase_unit ?t)"
    by (simp add: generatePin_def toUpperCase_ascii [OF a])
  also have "\<dots> = map toUpperCase_unit (tail_pad 6 ?n)"
    by (simp add: tail_pad_def padStart_def digit36_def toUpperCase_unit_def)
  also have "\<dots> = map toUpperCase_unit (map digit36 (last_digits 6 ?n))"
    by (simp only: tail_pad_digits)
  also have "\<dots> = map pin_digit (last_digits 6 ?n)"
    by (simp add: digit36_upper last_digits_lt)
  finally show ?thesis .
qed

lemma getUint32_examples:
  "getUint32 255 255 255 255 = 4294967295" "getUint32 0 0 1 0 = 256"
  by (simp_all add: getUint32_def)

text \<open>
  Claim C8. For every draw of four random bytes, \<open>generatePin\<close> returns exactly six
  characters, each of them a digit or an upper-case letter: they are the last six
  base-36 digits of the big-endian unsigned 32-bit value of the draw, upper-cased, with
  \<open>0\<close> filling the places a short number leaves on the left.
\<close>

theorem generatePin_shape:
  fixes b0 b1 b2 b3 :: byte
  defines "num \<equiv> getUint32 b0 b1 b2 b3"
  shows "length (generatePin b0 b1 b2 b3) = 6
       \<and> set (generatePin b0 b1 b2 b3) \<subseteq> set (js ''0123456789ABCDEFGHIJKLMNOPQRSTUVWXYZ'')
       \<and> generatePin b0 b1 b2 b3 =
           map pin_digit [num div 60466176 mod 36, num div 1679616 mod 36, num div 46656 mod 36,
                          num div 1296 mod 36, num div 36 mod 36, num mod 36]"
proof -
  have a: "generatePin b0 b1 b2 b3 = map pin_digit (last_digits 6 num)"
    by (simp add: generatePin_digits num_def)
  have b: "set (map pin_digit (last_digits 6 num))
             \<subseteq> set (js ''0123456789ABCDEFGHIJKLMNOPQRSTUVWXYZ'')"
    using pin_digit_alphabet last_digits_lt by fastforce
  have c: "length (map pin_digit (last_digits 6 num)) = 6"
    by (simp add: length_last_digits)
  show ?thesis
    unfolding a using b c by (simp only: last_digits_6 simp_thms)
qed

theorem generatePin_shape_witness:
  "length (generatePin 255 255 255 255) = 6 \<and> generatePin 255 255 255 255 = js ''Z141Z3''
   \<and> generatePin 0 0 1 0 = js ''000074''"
  using generatePin_shape [of 255 255 255 255] generatePin_shape [of 0 0 1 0]
  unfolding getUint32_examples by (simp add: pin_digit_def js_def)

subsection \<open>UTF-8 and UTF-16 round trips\<close>

lemma in_range_excl:
  "in_range 194 223 b \<Longrightarrow> \<not> b \<le> 127"
  "in_range 224 239 b \<Longrightarrow> \<not> b \<le> 127 \<and> \<not> in_range 194 223 b"
  "in_range 240 244 b \<Longrightarrow> \<not> b \<le> 127 \<and> \<not> in_range 194 223 b \<and> \<not> in_range 224 239 b"
  by (auto simp: in_range_def)

lemma utf8_decode_2:
  "in_range 194 223 b1 \<Longrightarrow> in_range 128 191 b2 \<Longrightarrow>
   utf8_decode (b1 # b2 # rest) = ((b1 - 192) * 64 + (b2 - 128)) # utf8_decode rest"
  by (simp add: in_range_excl)

lemma utf8_decode_3:
  "in_range 224 239 b1 \<Longrightarrow> in_range (lower_bound b1) (upper_bound b1) b2 \<Longrightarrow>
   in_range 128 191 b3 \<Longrightarrow>
   utf8_decode (b1 # b2 # b3 # rest)
     = ((b1 - 224) * 4096 + (b2 - 128) * 64 + (b3 - 128)) # utf8_decode rest"
  by (simp add: in_range_excl)

lemma utf8_decode_4:
  "in_range 240 244 b1 \<Longrightarrow> in_range (lower_bound b1) (upper_bound b1) b2 \<Longrightarrow>
   in_range 128 191 b3 \<Longrightarrow> in_range 128 191 b4 \<Longrightarrow>
   utf8_decode (b1 # b2 # b3 # b4 # rest)
     = ((b1 - 240) * 262144 + (b2 - 128) * 4096 + (b3 - 128) * 64 + (b4 - 128))
       # utf8_decode rest"
  by (simp add: in_range_excl)

lemma utf8_decode_encode_cp:
  assumes "scalar_value c"
  shows "utf8_decode (utf8_encode_cp c @ rest) = c # utf8_decode rest"
proof -
  define d0 where "d0 = c mod 64"
  define c1 where "c1 = c div 64"
  define d1 where "d1 = c1 mod 64"
  define c2 where "c2 = c1 div 64"
  define d2 where "d2 = c2 mod 64"
  define c3 where "c3 = c2 div 64"
  have e0: "c = 64 * c1 + d0" "d0 < 64" by (simp_all add: d0_def c1_def)
  have e1: "c1 = 64 * c2 + d1" "d1 < 64" by (simp_all add: d1_def c2_def)
  have e2: "c2 = 64 * c3 + d2" "d2 < 64" by (simp_all add: d2_def c3_def)
  have q2: "c div 4096 = c2"
    using div_mult2_eq [of c 64 64] by (simp add: c2_def c1_def)
  have q3: "c div 262144 = c3"
    using div_mult2_eq [of c 4096 64] by (simp add: q2 c3_def)
  have lt: "c < 1114112" and ns: "c < 55296 \<or> 57343 < c"
    using assms by (auto simp: scalar_value_def is_surrogate_def)
  consider "c < 128" | "128 \<le> c" "c < 2048" | "2048 \<le> c" "c < 65536" | "65536 \<le> c"
    by linarith
  then show ?thesis
  proof cases
    case 1
    then show ?thesis by (simp add: utf8_encode_cp_def)
  next
    case 2
    have enc: "utf8_encode_cp c = [192 + c1, 128 + d0]"
      using 2 by (simp add: utf8_encode_cp_def c1_def d0_def)
    have r1: "in_range 194 223 (192 + c1)" and r2: "in_range 128 191 (128 + d0)"
      using 2 e0 by (auto simp: in_range_def)
    show ?thesis
      unfolding enc using utf8_decode_2 [OF r1 r2, of rest] e0 by simp
  next
    case 3
    have enc: "utf8_encode_cp c = [224 + c2, 128 + d1, 128 + d0]"
      using 3 by (simp add: utf8_encode_cp_def q2 d1_def c1_def d0_def)
    have r1: "in_range 224 239 (224 + c2)"
      using 3 e0 e1 by (auto simp: in_range_def)
    have r2: "in_range (lower_bound (224 + c2)) (upper_bound (224 + c2)) (128 + d1)"
      using 3 ns e0 e1 by (auto simp: in_range_def lower_bound_def upper_bound_def)
    have r3: "in_range 128 191 (128 + d0)"
      using e0 by (auto simp: in_range_def)
    show ?thesis
      unfolding enc using utf8_decode_3 [OF r1 r2 r3, of rest] e0 e1 by simp
  next
    case 4
    have enc: "utf8_encode_cp c = [240 + c3, 128 + d2, 128 + d1, 128 + d0]"
      using 4 by (simp add: utf8_encode_cp_def q2 q3 d2_def d1_def c1_def d0_def)
    have r1: "in_range 240 244 (240 + c3)"
      using 4 lt e0 e1 e2 by (auto simp: in_range_def)
    have r2: "in_range (lower_bound (240 + c3)) (upper_bound (240 + c3)) (128 + d2)"
      using 4 lt e0 e1 e2 by (auto simp: in_range_def lower_bound_def upper_bound_def)
    have r3: "in_range 128 191 (128 + d1)" and r4: "in_range 128 191 (128 + d0)"
      using e0 e1 by (auto simp: in_range_def)
    show ?thesis
      unfolding enc using utf8_decode_4 [OF r1 r2 r3 r4, of rest] e0 e1 e2 by simp
  qed
qed

lemma utf8_encode_cp_bytes:
  assumes "scalar_value c" and "b \<in> set (utf8_encode_cp c)"
  shows "b < 256"
proof -
  have lt: "c < 1114112" using assms by (simp add: scalar_value_def)
  have "c < 2048 \<Longrightarrow> c div 64 < 32" "c < 65536 \<Longrightarrow> c div 4096 < 16" "c div 262144 < 5"
    using lt by auto
  moreover have "x mod 64 < 64" for x :: nat by simp
  ultimately show ?thesis
    using assms(2) by (auto simp: utf8_encode_cp_def add.commute split: if_splits)
qed

lemma utf8_decode_encode:
  "list_all scalar_value cs \<Longrightarrow> utf8_decode (concat (map utf8_encode_cp cs)) = cs"
  by (induction cs) (simp_all add: utf8_decode_encode_cp)

lemma unat_of_nat_bytes:
  "\<forall>b \<in> set bs. b < 256 \<Longrightarrow> map unat (map of_nat bs :: byte list) = bs"
  by (induction bs) (simp_all add: unat_of_nat)

lemma utf8_encode_bytes:
  assumes "list_all scalar_value cs"
  shows "map unat (map of_nat (concat (map utf8_encode_cp cs)) :: byte list)
           = concat (map utf8_encode_cp cs)"
proof (rule unat_of_nat_bytes)
  show "\<forall>b \<in> set (concat (map utf8_encode_cp cs)). b < 256"
    using assms utf8_encode_cp_bytes by (auto simp: list_all_iff)
qed

lemma surrogate_pair_scalar:
  assumes "is_high_surrogate h" "is_low_surrogate l"
  shows "scalar_value (65536 + (h - 55296) * 1024 + (l - 56320))"
    and "utf16_units (65536 + (h - 55296) * 1024 + (l - 56320)) = [h, l]"
proof -
  define a where "a = h - 55296"
  define b where "b = l - 56320"
  have h: "h = 55296 + a" "a < 1024"
    using assms(1) unfolding is_high_surrogate_def a_def by arith+
  have l: "l = 56320 + b" "b < 1024"
    using assms(2) unfolding is_low_surrogate_def b_def by arith+
  show "scalar_value (65536 + (h - 55296) * 1024 + (l - 56320))"
    using h l by (simp add: scalar_value_def is_surrogate_def)
  show "utf16_units (65536 + (h - 55296) * 1024 + (l - 56320)) = [h, l]"
    using h l by (simp add: utf16_units_def)
qed

lemma utf16_round_trip:
  "well_formed_utf16 s \<Longrightarrow>
   list_all scalar_value (utf16_code_points s)
   \<and> concat (map utf16_units (utf16_code_points s)) = s"
proof (induction s rule: utf16_code_points.induct)
  case 1
  show ?case by simp
next
  case (2 u)
  then show ?case by (simp add: scalar_value_def utf16_units_def)
next
  case (3 h l r)
  show ?case
  proof (cases "is_high_surrogate h \<and> is_low_surrogate l")
    case True
    with 3 show ?thesis by (simp add: surrogate_pair_scalar)
  next
    case False
    have cp: "utf16_code_points (h # l # r)
                = (if is_surrogate h then 65533 else h) # utf16_code_points (l # r)"
      by (simp only: utf16_code_points.simps if_not_P [OF False])
    have "well_formed_utf16 (h # l # r)
            = (h < 65536 \<and> \<not> is_surrogate h \<and> well_formed_utf16 (l # r))"
      by (simp only: well_formed_utf16.simps if_not_P [OF False])
    with "3.prems" have wf: "h < 65536 \<and> \<not> is_surrogate h \<and> well_formed_utf16 (l # r)"
      by blast
    have ih: "list_all scalar_value (utf16_code_points (l # r))
              \<and> concat (map utf16_units (utf16_code_points (l # r))) = l # r"
      using "3.IH"(2) [OF False] wf by blast
    have sh: "scalar_value h" "utf16_units h = [h]"
      using wf by (simp_all add: scalar_value_def utf16_units_def)
    show ?thesis
      unfolding cp using wf ih sh by simp
  qed
qed

lemma three_byte_parts: "(c::nat) div 4096 * 4096 + c div 64 mod 64 * 64 + c mod 64 = c"
proof -
  have "c div 4096 = c div 64 div 64"
    using div_mult2_eq [of c 64 64] by simp
  moreover have "c div 64 div 64 * 64 + c div 64 mod 64 = c div 64" by simp
  moreover have "c div 64 * 64 + c mod 64 = c" by simp
  ultimately show ?thesis by linarith
qed

lemma strip_BOM_encode:
  assumes "list_all scalar_value cs" "take 1 cs \<noteq> [65279]"
  shows "strip_BOM (concat (map utf8_encode_cp cs)) = concat (map utf8_encode_cp cs)"
proof (cases cs)
  case Nil
  then show ?thesis by (simp add: strip_BOM_def)
next
  case (Cons c cs')
  have ne: "c \<noteq> 65279" using assms(2) Cons by simp
  have "take 3 (utf8_encode_cp c @ rest) \<noteq> [239, 187, 191]" for rest
  proof
    assume t: "take 3 (utf8_encode_cp c @ rest) = [239, 187, 191]"
    have three: "2048 \<le> c \<and> c < 65536"
      using t by (auto simp: utf8_encode_cp_def split: if_splits)
    then have "c div 4096 = 15" "c div 64 mod 64 = 59" "c mod 64 = 63"
      using t by (auto simp: utf8_encode_cp_def)
    then have "c = 65279" using three_byte_parts [of c] by simp
    with ne show False by simp
  qed
  then show ?thesis by (simp add: strip_BOM_def Cons)
qed

lemma first_code_point:
  "well_formed_utf16 s \<Longrightarrow> take 1 s \<noteq> [65279] \<Longrightarrow> take 1 (utf16_code_points s) \<noteq> [65279]"
  by (induction s rule: utf16_code_points.induct)
     (auto simp: is_high_surrogate_def is_low_surrogate_def is_surrogate_def split: if_splits)

lemma text_round_trip:
  assumes "well_formed_utf16 s" "take 1 s \<noteq> [65279]"
  shows "TextDecoder_decode (TextEncoder_encode s) = s"
proof -
  let ?cs = "utf16_code_points s"
  have sc: "list_all scalar_value ?cs" and rt: "concat (map utf16_units ?cs) = s"
    using utf16_round_trip [OF assms(1)] by simp_all
  have "TextDecoder_decode (TextEncoder_encode s)
        = concat (map utf16_units (utf8_decode (strip_BOM (concat (map utf8_encode_cp ?cs)))))"
    by (simp only: TextDecoder_decode_def TextEncoder_encode_def utf8_encode_bytes [OF sc])
  also have "\<dots> = concat (map utf16_units (utf8_decode (concat (map utf8_encode_cp ?cs))))"
    by (simp only: strip_BOM_encode [OF sc first_code_point [OF assms]])
  also have "\<dots> = s"
    by (simp only: utf8_decode_encode [OF sc] rt)
  finally show ?thesis .
qed


subsection \<open>Hex strings and the small platform\<close>

lemma toy_platform_contract: "platform_contract toy_platform"
  by (simp add: platform_contract_def toy_platform_def toy_encrypt_def toy_decrypt_def
        toy_tag_def toy_hmac_def)

lemma hex2_eq: "hex2 x = [digit36 (unat x div 16), digit36 (unat x mod 16)]"
proof -
  have lt: "unat x < 256" using unsigned_less [of x, where ?'a = nat] by simp
  show ?thesis
  proof (cases "unat x < 16")
    case True
    then show ?thesis
      by (simp add: hex2_def toStringRadix_small padStart_def digit36_def)
  next
    case False
    then have "unat x div 16 < 16" using lt by auto
    with False show ?thesis
      by (simp add: hex2_def toStringRadix_big toStringRadix_small padStart_def)
  qed
qed

lemma toHex_hex2: "toHex bs = concat (map hex2 bs)"
  by (simp add: toHex_def hex2_def [abs_def])

lemma digit36_hex:
  assumes "d < 16"
  shows "\<not> is_white_space (digit36 d)" "\<not> is_line_terminator (digit36 d)"
    "digit36 d \<noteq> 45" "digit36 d \<noteq> 43" "digit36 d \<noteq> 120" "digit36 d \<noteq> 88"
    "digit36 d \<noteq> 58" "hex_value (digit36 d) = Some d"
  using assms
  by (auto simp: digit36_def is_white_space_def is_line_terminator_def hex_value_def)

lemma parseInt16_pair:
  assumes "a < 16" "b < 16"
  shows "parseInt16 [digit36 a, digit36 b] = Some (int (16 * a + b))"
  using digit36_hex [OF assms(1)] digit36_hex [OF assms(2)]
  by (simp add: parseInt16_def hex_number_def)

lemma toUint8_hex2: "toUint8 (parseInt16 (hex2 x)) = x"
proof -
  have lt: "unat x < 256" using unsigned_less [of x, where ?'a = nat] by simp
  then have "unat x div 16 < 16" "unat x mod 16 < 16" by auto
  then have "parseInt16 (hex2 x) = Some (int (16 * (unat x div 16) + unat x mod 16))"
    unfolding hex2_eq by (rule parseInt16_pair)
  then show ?thesis by (simp add: toUint8_def)
qed

lemma match_pairs_all_hex2: "match_pairs_all (hex2 x @ rest) = hex2 x # match_pairs_all rest"
proof -
  have lt: "unat x < 256" using unsigned_less [of x, where ?'a = nat] by simp
  then have "unat x div 16 < 16" "unat x mod 16 < 16" by auto
  then show ?thesis
    unfolding hex2_eq by (simp add: digit36_hex)
qed

lemma match_pairs_all_toHex: "match_pairs_all (toHex bs) = map hex2 bs"
  by (induction bs) (simp_all add: toHex_hex2 match_pairs_all_hex2)

lemma fromHex_toHex: "bs \<noteq> [] \<Longrightarrow> fromHex (toHex bs) = Some bs"
  by (cases bs)
     (simp_all add: fromHex_def match_pairs_def match_pairs_all_toHex toUint8_hex2
        map_idI)

lemma colon_notin_toHex: "58 \<notin> set (toHex bs)"
proof -
  have "58 \<notin> set (hex2 x)" for x
  proof -
    have lt: "unat x < 256" using unsigned_less [of x, where ?'a = nat] by simp
    then have "unat x div 16 < 16" "unat x mod 16 < 16" by auto
    then show ?thesis
      unfolding hex2_eq using digit36_hex(7) by (metis empty_iff empty_set set_ConsD)
  qed
  then show ?thesis by (auto simp: toHex_hex2)
qed

lemma length_toHex: "length (toHex bs) = 2 * length bs"
  by (induction bs) (simp_all add: toHex_hex2 hex2_eq)

lemma split_on_none: "c \<notin> set s \<Longrightarrow> split_on c s = [s]"
  by (induction s) auto

lemma split_on_first:
  "c \<notin> set a \<Longrightarrow> split_on c (a @ c # rest) = a # split_on c rest"
  by (induction a) auto


subsection \<open>Envelope codec\<close>

lemma toy_key: "getAesKey toy_config = Some (map of_nat [0..<32])"
  by (simp add: getAesKey_def toy_config_def js_def fromHex_def match_pairs_def
        parseInt16_def hex_number_def hex_value_def is_white_space_def is_line_terminator_def
        toUint8_def upt_rec)

lemma toy_key_ok: "key_ok toy_config"
  by (simp add: key_ok_def toy_key)

lemma replicate_16: "replicate 16 x = [x, x, x, x, x, x, x, x, x, x, x, x, x, x, x, x]"
  by (simp add: eval_nat_numeral)

lemma replicate_20:
  "replicate 20 x = [x, x, x, x, x, x, x, x, x, x, x, x, x, x, x, x, x, x, x, x]"
  by (simp add: eval_nat_numeral)

lemma toy_envelope:
  "encrypt toy_platform toy_config (map of_nat [0..<12]) (js ''hi'')
     = Some (js ''000102030405060708090a0b:686903030303030303030303030303030303'')"
  by (simp add: encrypt_def toy_key toy_platform_def toy_encrypt_def toy_tag_def
        TextEncoder_encode_def utf8_encode_cp_def js_def is_surrogate_def is_high_surrogate_def
        toHex_def padStart_def toStringRadix.simps digit36_def upt_rec replicate_16)

lemma toy_decrypt_examples:
  "decrypt toy_platform toy_config
     (js ''000102030405060708090a0b:686903030303030303030303030303030303'') = js ''hi''"
  "decrypt toy_platform toy_config
     (js ''zz0102030405060708090a0b:686903030303030303030303030303030303'') = js ''hi''"
  "decrypt toy_platform toy_config
     (js ''000102030405060708090a0b:686903030303030303030303030303030303f'') = js ''hi''"
  "decrypt toy_platform toy_config
     (js ''000102030405060708090a0b:686903030303030303030303030303030303:anything'') = js ''hi''"
  "decrypt toy_platform toy_config
     (js ''000102030405060708090a0b:686a03030303030303030303030303030303'')
     = js ''000102030405060708090a0b:686a03030303030303030303030303030303''"
  "decrypt toy_platform toy_config (js ''000102030405060708090a0b:'')
     = js ''000102030405060708090a0b:''"
  by (simp_all add: decrypt_def decrypt_try_def toy_key toy_platform_def toy_decrypt_def
        toy_tag_def js_def fromHex_def match_pairs_def parseInt16_def hex_number_def
        hex_value_def is_white_space_def is_line_terminator_def toUint8_def upt_rec
        replicate_16 TextDecoder_decode_def strip_BOM_def utf16_units_def)

lemma bom_is_lost:
  "TextDecoder_decode (TextEncoder_encode [65279, 97]) = [97]"
  by (simp add: TextDecoder_decode_def TextEncoder_encode_def utf8_encode_cp_def
        is_high_surrogate_def is_low_surrogate_def is_surrogate_def strip_BOM_def
        in_range_def lower_bound_def upper_bound_def utf16_units_def)

lemma trailing_unit_ignored:
  assumes "c \<noteq> 58"
  shows "decrypt_try P cfg (toHex iv @ js '':'' @ toHex ct @ [c])
         = decrypt_try P cfg (toHex iv @ js '':'' @ toHex ct)"
proof -
  have n: "58 \<notin> set (toHex ct @ [c])" using assms colon_notin_toHex by simp
  have s1: "split_on 58 (toHex iv @ js '':'' @ toHex ct @ [c]) = [toHex iv, toHex ct @ [c]]"
    using split_on_first [of 58 "toHex iv" "toHex ct @ [c]"] colon_notin_toHex n
    by (simp add: js_def split_on_none)
  have s2: "split_on 58 (toHex iv @ js '':'' @ toHex ct) = [toHex iv, toHex ct]"
    using split_on_first [of 58 "toHex iv" "toHex ct"] colon_notin_toHex
    by (simp add: js_def split_on_none)
  have "match_pairs_all (toHex bs @ [c]) = map hex2 bs" for bs
    by (induction bs) (simp_all add: toHex_hex2 match_pairs_all_hex2)
  then have "fromHex (toHex ct @ [c]) = fromHex (toHex ct)"
    by (simp add: fromHex_def match_pairs_def match_pairs_all_toHex)
  then show ?thesis
    by (simp add: decrypt_try_def s1 s2 cong: option.case_cong)
qed

lemma envelope_opens:
  assumes "platform_contract P" and "key_ok cfg" and "length iv = 12"
    and "well_formed_utf16 s" and "take 1 s \<noteq> [65279]"
  shows "\<exists>ct. encrypt P cfg iv s = Some (toHex iv @ js '':'' @ toHex ct)
           \<and> decrypt_try P cfg (toHex iv @ js '':'' @ toHex ct) = Some s"
proof -
  obtain key where key: "getAesKey cfg = Some key" "length key = 32"
    using assms(2) by (auto simp: key_ok_def split: option.splits)
  obtain ct where ct: "aes_gcm_encrypt P key iv (TextEncoder_encode s) = Some ct"
      "length ct = length (TextEncoder_encode s) + 16"
      "aes_gcm_decrypt P key iv ct = Some (TextEncoder_encode s)"
    using assms(1,3) key(2) unfolding platform_contract_def by blast
  let ?e = "toHex iv @ js '':'' @ toHex ct"
  have ne: "iv \<noteq> []" "ct \<noteq> []" using assms(3) ct(2) by auto
  have enc: "encrypt P cfg iv s = Some ?e"
    by (simp add: encrypt_def key ct)
  have sp: "split_on 58 ?e = [toHex iv, toHex ct]"
    using split_on_first [of 58 "toHex iv" "toHex ct"] colon_notin_toHex
    by (simp add: js_def split_on_none)
  have "decrypt_try P cfg ?e = Some s"
    by (simp add: decrypt_try_def sp key fromHex_toHex ne ct text_round_trip [OF assms(4,5)])
  with enc show ?thesis by blast
qed

text \<open>
  With any platform that meets the contract, an envelope followed by one stray
  character still decrypts: its ciphertext segment is malformed hex, of odd length, and
  the result is the plaintext, not the stored string.
\<close>

lemma stray_character_decrypts:
  assumes "platform_contract P" and "key_ok cfg" and "length iv = 12"
    and "well_formed_utf16 s" and "take 1 s \<noteq> [65279]" and "c \<noteq> 58"
  shows "\<exists>e. encrypt P cfg iv s = Some e \<and> decrypt P cfg (e @ [c]) = s
           \<and> odd (length (split_on 58 (e @ [c]) ! 1))"
proof -
  obtain ct where ct: "encrypt P cfg iv s = Some (toHex iv @ js '':'' @ toHex ct)"
      "decrypt_try P cfg (toHex iv @ js '':'' @ toHex ct) = Some s"
    using envelope_opens [OF assms(1-5)] by blast
  let ?e = "toHex iv @ js '':'' @ toHex ct"
  have t: "decrypt_try P cfg (?e @ [c]) = Some s"
    using trailing_unit_ignored [OF assms(6), of P cfg iv ct] ct(2) by simp
  have n: "58 \<notin> set (toHex ct @ [c])" using assms(6) colon_notin_toHex by simp
  have sp: "split_on 58 (toHex iv @ js '':'' @ toHex ct @ [c]) = [toHex iv, toHex ct @ [c]]"
    using split_on_first [of 58 "toHex iv" "toHex ct @ [c]"] colon_notin_toHex n
    by (simp add: js_def split_on_none)
  have "decrypt P cfg (?e @ [c]) = s"
    using t by (simp add: decrypt_def js_def)
  moreover have "odd (length (split_on 58 (?e @ [c]) ! 1))"
    using sp by (simp add: length_toHex)
  ultimately show ?thesis using ct(1) by blast
qed

text \<open>
  Claim C5. A stored string with no \<open>:\<close> in it is a legacy plaintext record:
  \<open>decrypt\<close> (and its copy \<open>decryptField\<close>) returns it unchanged, whatever the
  string, the key and the platform; no exception is involved.
\<close>

theorem decrypt_legacy_passthrough:
  "58 \<notin> set s \<Longrightarrow> decrypt P cfg s = s \<and> decryptField P cfg s = s"
  by (simp add: decrypt_def decryptField_def)

theorem decrypt_legacy_passthrough_witness:
  "58 \<notin> set (js ''+16475551234'')
   \<and> decrypt toy_platform toy_config (js ''+16475551234'') = js ''+16475551234''
   \<and> decryptField toy_platform toy_config (js ''+16475551234'') = js ''+16475551234''"
  using decrypt_legacy_passthrough [of "js ''+16475551234''" toy_platform toy_config]
  by (simp add: js_def)

text \<open>
  Claim C2. Envelope round trip: with a platform that meets its contract, an
  \<^verbatim>\<open>ENCRYPTION_KEY\<close> that reads as 32 bytes and any 12-byte nonce, encrypting a string of
  well-formed UTF-16 that does not start with the byte order mark U+FEFF succeeds, and
  decrypting the envelope gives the string back. Every string of printable characters
  is such a string: U+FEFF and lone surrogates are not printable.
\<close>

theorem envelope_round_trip:
  assumes "platform_contract P" and "key_ok cfg" and "length iv = 12"
    and "well_formed_utf16 s" and "take 1 s \<noteq> [65279]"
  shows "\<exists>e. encrypt P cfg iv s = Some e \<and> decrypt P cfg e = s"
proof -
  obtain ct where ct: "encrypt P cfg iv s = Some (toHex iv @ js '':'' @ toHex ct)"
      "decrypt_try P cfg (toHex iv @ js '':'' @ toHex ct) = Some s"
    using envelope_opens [OF assms] by blast
  have "58 \<in> set (toHex iv @ js '':'' @ toHex ct)" by (simp add: js_def)
  with ct show ?thesis
    by (simp add: decrypt_def)
qed

theorem envelope_round_trip_witness:
  "platform_contract toy_platform \<and> key_ok toy_config
   \<and> length [1, 2, 3, 4, 5, 6, 7, 8, 9, 10, 11, 12 :: byte] = 12
   \<and> well_formed_utf16 [43, 49, 233, 8364, 55357, 56832]
   \<and> take 1 [43, 49, 233, 8364, 55357, 56832] \<noteq> [65279 :: nat]
   \<and> (\<exists>e. encrypt toy_platform toy_config [1, 2, 3, 4, 5, 6, 7, 8, 9, 10, 11, 12]
              [43, 49, 233, 8364, 55357, 56832] = Some e
          \<and> decrypt toy_platform toy_config e = [43, 49, 233, 8364, 55357, 56832])"
proof -
  have wf: "well_formed_utf16 [43, 49, 233, 8364, 55357, 56832]"
    by (simp add: is_high_surrogate_def is_low_surrogate_def is_surrogate_def)
  have len: "length [1, 2, 3, 4, 5, 6, 7, 8, 9, 10, 11, 12 :: byte] = 12" by simp
  have nb: "take 1 [43, 49, 233, 8364, 55357, 56832] \<noteq> [65279 :: nat]" by simp
  show ?thesis
    using envelope_round_trip [OF toy_platform_contract toy_key_ok len wf nb]
      toy_platform_contract toy_key_ok wf
    by simp
qed

text \<open>
  Claim C4, amended. Decryption is total and all-or-nothing: for every stored string
  that contains the delimiter, \<open>decrypt\<close> returns either the stored string verbatim or
  the decoding of the plaintext that AES-GCM authenticated for the bytes read from the
  first two segments; and whenever reading a segment or the key as hex throws, or AES-GCM
  rejects the bytes (a corrupted ciphertext, a truncated envelope, a failed tag), it
  returns the stored string verbatim. The function has no exceptional result. Hex is
  read leniently, so malformed hex falls back only when one of those steps fails.
\<close>

theorem decrypt_all_or_nothing:
  assumes "58 \<in> set stored"
  shows "(decrypt P cfg stored = stored
          \<or> (\<exists>ivHex ctHex rest key iv ct pt.
                split_on 58 stored = ivHex # ctHex # rest
                \<and> getAesKey cfg = Some key \<and> fromHex ivHex = Some iv \<and> fromHex ctHex = Some ct
                \<and> aes_gcm_decrypt P key iv ct = Some pt
                \<and> decrypt P cfg stored = TextDecoder_decode pt))
       \<and> (\<forall>ivHex ctHex rest. split_on 58 stored = ivHex # ctHex # rest \<longrightarrow>
             (fromHex ivHex = None \<or> fromHex ctHex = None \<or> getAesKey cfg = None
              \<or> (\<exists>key iv ct. getAesKey cfg = Some key \<and> fromHex ivHex = Some iv
                     \<and> fromHex ctHex = Some ct \<and> aes_gcm_decrypt P key iv ct = None))
             \<longrightarrow> decrypt P cfg stored = stored)"
  using assms
  by (auto simp: decrypt_def decrypt_try_def split: list.splits option.splits)

theorem decrypt_all_or_nothing_witness:
  "58 \<in> set (js ''000102030405060708090a0b:686a03030303030303030303030303030303'')
   \<and> decrypt toy_platform toy_config
        (js ''000102030405060708090a0b:686a03030303030303030303030303030303'')
      = js ''000102030405060708090a0b:686a03030303030303030303030303030303''
   \<and> decrypt toy_platform toy_config
        (js ''000102030405060708090a0b:686903030303030303030303030303030303'') = js ''hi''"
  using decrypt_all_or_nothing
    [of "js ''000102030405060708090a0b:686a03030303030303030303030303030303''"
        toy_platform toy_config]
    toy_decrypt_examples(1,5)
  by (simp add: js_def)

text \<open>
  The claim as it was stated also sends every malformed hex segment to the fallback.
  That fails: \<open>zz\<close> reads as the byte 0 and a trailing odd character is dropped, so
  the envelope below, malformed in both segments, decrypts; \<open>stray_character_decrypts\<close>
  shows the same for every platform that meets the contract.
\<close>

theorem malformed_hex_counterexample:
  "58 \<in> set (js ''zz0102030405060708090a0b:686903030303030303030303030303030303f'')
   \<and> \<not> well_formed_hex (js ''zz0102030405060708090a0b'')
   \<and> \<not> well_formed_hex (js ''686903030303030303030303030303030303f'')
   \<and> decrypt toy_platform toy_config
        (js ''zz0102030405060708090a0b:686903030303030303030303030303030303f'')
      \<noteq> js ''zz0102030405060708090a0b:686903030303030303030303030303030303f''"
  by (simp add: decrypt_def decrypt_try_def toy_key toy_platform_def toy_decrypt_def
        toy_tag_def js_def fromHex_def match_pairs_def parseInt16_def hex_number_def
        hex_value_def is_white_space_def is_line_terminator_def toUint8_def upt_rec
        replicate_16 TextDecoder_decode_def strip_BOM_def utf16_units_def well_formed_hex_def)


subsection \<open>Rate limiter and verify-pin\<close>

lemma check_in_window:
  assumes "rl k = Some row" "t < window_start row + WINDOW_MS" "count row < MAX_ATTEMPTS"
  shows "check_rate_limit rl k t
         = (Allowed, rl(k \<mapsto> row\<lparr>count := count row + 1\<rparr>),
            [Select_rate_limit k, Update_rate_limit k (row\<lparr>count := count row + 1\<rparr>)])"
  using assms by (simp add: check_rate_limit_def Let_def)

lemma check_throttled:
  assumes "rl k = Some row" "t < window_start row + WINDOW_MS" "MAX_ATTEMPTS \<le> count row"
  shows "check_rate_limit rl k t = (Throttled, rl, [Select_rate_limit k])"
  using assms by (simp add: check_rate_limit_def Let_def)

lemma check_stale:
  assumes "rl k = Some row" "window_start row + WINDOW_MS \<le> t"
  shows "check_rate_limit rl k t
         = (Allowed, rl(k \<mapsto> \<lparr>count = 1, window_start = t\<rparr>),
            [Select_rate_limit k, Update_rate_limit k \<lparr>count = 1, window_start = t\<rparr>])"
  using assms by (simp add: check_rate_limit_def Let_def)

lemma check_first:
  assumes "rl k = None"
  shows "check_rate_limit rl k t
         = (Allowed, rl(k \<mapsto> \<lparr>count = 1, window_start = t\<rparr>),
            [Select_rate_limit k, Insert_rate_limit k \<lparr>count = 1, window_start = t\<rparr>])"
  using assms by (simp add: check_rate_limit_def Let_def)

lemma run_in_window:
  assumes "rl k = Some row" "\<forall>t \<in> set ts. t < window_start row + WINDOW_MS"
    and "count row + int (length ts) \<le> MAX_ATTEMPTS"
  shows "\<exists>rl'. run_checks rl k ts = (replicate (length ts) Allowed, rl')
            \<and> rl' k = Some (row\<lparr>count := count row + int (length ts)\<rparr>)
            \<and> (\<forall>k'. k' \<noteq> k \<longrightarrow> rl' k' = rl k')"
  using assms
proof (induction ts arbitrary: rl row)
  case Nil
  then show ?case by simp
next
  case (Cons t ts)
  let ?row = "row\<lparr>count := count row + 1\<rparr>"
  let ?rl = "rl(k \<mapsto> ?row)"
  have step: "check_rate_limit rl k t
              = (Allowed, ?rl, [Select_rate_limit k, Update_rate_limit k ?row])"
    using Cons.prems by (intro check_in_window) auto
  have "\<exists>rl'. run_checks ?rl k ts = (replicate (length ts) Allowed, rl')
            \<and> rl' k = Some (?row\<lparr>count := count ?row + int (length ts)\<rparr>)
            \<and> (\<forall>k'. k' \<noteq> k \<longrightarrow> rl' k' = ?rl k')"
    using Cons.prems by (intro Cons.IH) auto
  then obtain rl' where r: "run_checks ?rl k ts = (replicate (length ts) Allowed, rl')"
      "rl' k = Some (?row\<lparr>count := count ?row + int (length ts)\<rparr>)"
      "\<forall>k'. k' \<noteq> k \<longrightarrow> rl' k' = ?rl k'"
    by blast
  show ?case
    using step r by (simp add: add.assoc add.commute)
qed


text \<open>
  Claim C6. Rate limiter boundary, with at most 10 attempts per window of 5 minutes, for
  one key. Let the first call come at \<open>t0\<close>, with no row for the key or a row whose
  window has run out by then, and let nine more calls come at clock readings below
  \<open>t0 + 5 min\<close>. All ten calls are allowed and leave the stored count at 10 in the
  window opened at \<open>t0\<close>. An eleventh call inside the window is throttled and leaves the
  table as it is. A call at or after \<open>t0 + 5 min\<close> is allowed and resets the row to
  count 1 with the time of that call as the window start.
\<close>

theorem rate_limiter_boundary:
  assumes fresh: "rl k = None \<or> (\<exists>row. rl k = Some row \<and> window_start row + WINDOW_MS \<le> t0)"
    and nine: "length ts = 9"
    and inside: "\<forall>t \<in> set ts. t < t0 + WINDOW_MS"
  shows "\<exists>rl10. run_checks rl k (t0 # ts) = (replicate 10 Allowed, rl10)
           \<and> rl10 k = Some \<lparr>count = 10, window_start = t0\<rparr>
           \<and> (\<forall>t11. t11 < t0 + WINDOW_MS \<longrightarrow>
                 check_rate_limit rl10 k t11 = (Throttled, rl10, [Select_rate_limit k]))
           \<and> (\<forall>t. t0 + WINDOW_MS \<le> t \<longrightarrow>
                 check_rate_limit rl10 k t
                 = (Allowed, rl10(k \<mapsto> \<lparr>count = 1, window_start = t\<rparr>),
                    [Select_rate_limit k, Update_rate_limit k \<lparr>count = 1, window_start = t\<rparr>]))"
proof -
  let ?row = "\<lparr>count = 1, window_start = t0\<rparr>"
  let ?rl1 = "rl(k \<mapsto> ?row)"
  have first: "\<exists>ops. check_rate_limit rl k t0 = (Allowed, ?rl1, ops)"
    using fresh check_first [of rl k t0] check_stale [of rl k _ t0] by auto
  have "\<exists>rl'. run_checks ?rl1 k ts = (replicate (length ts) Allowed, rl')
            \<and> rl' k = Some (?row\<lparr>count := count ?row + int (length ts)\<rparr>)
            \<and> (\<forall>k'. k' \<noteq> k \<longrightarrow> rl' k' = ?rl1 k')"
    using inside nine by (intro run_in_window) (auto simp: MAX_ATTEMPTS_def)
  then obtain rl10 where r: "run_checks ?rl1 k ts = (replicate 9 Allowed, rl10)"
      "rl10 k = Some \<lparr>count = 10, window_start = t0\<rparr>"
    using nine by auto
  have run: "run_checks rl k (t0 # ts) = (replicate 10 Allowed, rl10)"
    using first r(1) by (auto simp: eval_nat_numeral)
  have thr: "check_rate_limit rl10 k t11 = (Throttled, rl10, [Select_rate_limit k])"
    if "t11 < t0 + WINDOW_MS" for t11
    using that r(2) by (intro check_throttled [where row = "\<lparr>count = 10, window_start = t0\<rparr>"])
      (auto simp: MAX_ATTEMPTS_def)
  have reset: "check_rate_limit rl10 k t
               = (Allowed, rl10(k \<mapsto> \<lparr>count = 1, window_start = t\<rparr>),
                  [Select_rate_limit k, Update_rate_limit k \<lparr>count = 1, window_start = t\<rparr>])"
    if "t0 + WINDOW_MS \<le> t" for t
    using that r(2) by (intro check_stale [where row = "\<lparr>count = 10, window_start = t0\<rparr>"]) auto
  show ?thesis
    using run r(2) thr reset by blast
qed

theorem rate_limiter_boundary_witness:
  "\<exists>rl10. run_checks Map.empty (js ''k'')
            (1000 # [1001, 1002, 1003, 1004, 1005, 1006, 1007, 1008, 300999])
          = (replicate 10 Allowed, rl10)
     \<and> rl10 (js ''k'') = Some \<lparr>count = 10, window_start = 1000\<rparr>
     \<and> check_rate_limit rl10 (js ''k'') 300999
         = (Throttled, rl10, [Select_rate_limit (js ''k'')])
     \<and> check_rate_limit rl10 (js ''k'') 301001
         = (Allowed, rl10(js ''k'' \<mapsto> \<lparr>count = 1, window_start = 301001\<rparr>),
            [Select_rate_limit (js ''k''),
             Update_rate_limit (js ''k'') \<lparr>count = 1, window_start = 301001\<rparr>])"
proof -
  let ?ts = "[1001, 1002, 1003, 1004, 1005, 1006, 1007, 1008, 300999 :: int]"
  have a: "Map.empty (js ''k'') = (None :: rate_row option)
      \<or> (\<exists>row. Map.empty (js ''k'') = Some row \<and> window_start row + WINDOW_MS \<le> 1000)"
    by simp
  have b: "length ?ts = 9" by simp
  have c: "\<forall>t \<in> set ?ts. t < 1000 + WINDOW_MS" by (simp add: WINDOW_MS_def)
  obtain rl10 where r:
    "run_checks Map.empty (js ''k'') (1000 # ?ts) = (replicate 10 Allowed, rl10)"
    "rl10 (js ''k'') = Some \<lparr>count = 10, window_start = 1000\<rparr>"
    "\<forall>t11. t11 < 1000 + WINDOW_MS \<longrightarrow>
       check_rate_limit rl10 (js ''k'') t11 = (Throttled, rl10, [Select_rate_limit (js ''k'')])"
    "\<forall>t. 1000 + WINDOW_MS \<le> t \<longrightarrow>
       check_rate_limit rl10 (js ''k'') t
       = (Allowed, rl10(js ''k'' \<mapsto> \<lparr>count = 1, window_start = t\<rparr>),
          [Select_rate_limit (js ''k''),
           Update_rate_limit (js ''k'') \<lparr>count = 1, window_start = t\<rparr>])"
    using rate_limiter_boundary [OF a b c] by blast
  have t1: "check_rate_limit rl10 (js ''k'') 300999
            = (Throttled, rl10, [Select_rate_limit (js ''k'')])"
    using r(3) by (simp add: WINDOW_MS_def)
  have t2: "check_rate_limit rl10 (js ''k'') 301001
            = (Allowed, rl10(js ''k'' \<mapsto> \<lparr>count = 1, window_start = 301001\<rparr>),
               [Select_rate_limit (js ''k''),
                Update_rate_limit (js ''k'') \<lparr>count = 1, window_start = 301001\<rparr>])"
    using r(4) by (simp add: WINDOW_MS_def)
  show ?thesis
    using r(1,2) t1 t2 by blast
qed

lemma sample_key: "client_key (pin_post p) = js ''203.0.113.7:verify-pin''"
  by (simp add: client_key_def pin_post_def js_def trim_def is_white_space_def
        is_line_terminator_def)

lemma sample_pins:
  "parse_pin (JObj [(js ''pin'', JStr (js '' abc123 ''))]) = Some (js ''ABC123'')"
  "parse_pin (JObj [(js ''pin'', JStr (js ''nope''))]) = Some (js ''NOPE'')"
  "parse_pin (JObj [(js ''pin'', JStr (js ''  ''))]) = Some []"
  by (simp_all add: parse_pin_def js_def trim_def is_white_space_def is_line_terminator_def
        toUpperCase_ascii toUpperCase_unit_def)

text \<open>
  Claim C10. Empty-PIN short circuit: a POST whose body parses and whose pin, after
  \<^verbatim>\<open>toString\<close>, \<^verbatim>\<open>trim\<close> and \<^verbatim>\<open>toUpperCase\<close>, is the empty string is answered with status 200
  and \<^verbatim>\<open>{"valid": false}\<close>; the store is left as it was and no store operation is made: no
  read or write of \<^verbatim>\<open>rate_limits\<close>, no query of \<^verbatim>\<open>pins\<close>.
\<close>

theorem empty_pin_short_circuit:
  assumes "req_method req = js ''POST''" and "json_body req = Some b" and "parse_pin b = Some []"
  shows "verify_pin db now req = (\<lparr>status = 200, body = Valid False\<rparr>, db, [])"
  using assms by (simp add: verify_pin_def js_def)

theorem empty_pin_short_circuit_witness:
  "req_method (pin_post (js ''  '')) = js ''POST''
   \<and> json_body (pin_post (js ''  '')) = Some (JObj [(js ''pin'', JStr (js ''  ''))])
   \<and> parse_pin (JObj [(js ''pin'', JStr (js ''  ''))]) = Some []
   \<and> verify_pin \<lparr>rate_limits = Map.empty, pins = [(js ''ABC123'', None)], subscribers = [], inbound_sms = []\<rparr> 2000 (pin_post (js ''  ''))
       = (\<lparr>status = 200, body = Valid False\<rparr>,
          \<lparr>rate_limits = Map.empty, pins = [(js ''ABC123'', None)], subscribers = [], inbound_sms = []\<rparr>, [])"
  using empty_pin_short_circuit
    [of "pin_post (js ''  '')" "JObj [(js ''pin'', JStr (js ''  ''))]"
        "\<lparr>rate_limits = Map.empty, pins = [(js ''ABC123'', None)], subscribers = [], inbound_sms = []\<rparr>" 2000]
    sample_pins(3)
  by (simp add: pin_post_def)

text \<open>
  Claim C9, amended. Throttled responses do not depend on the validity of the PIN: a
  POST whose body parses to a non-empty pin, from a key whose window is still open
  (\<open>window_start\<close> later than five minutes before the request) with a count at or above
  the maximum, is answered with status 429 and \<^verbatim>\<open>{"valid": false}\<close>; the only store
  operation is the read of the rate-limit row, so \<^verbatim>\<open>pins\<close> is not queried and the row is
  not updated. Neither the pin nor the \<^verbatim>\<open>pins\<close> table occurs in the result.
\<close>

theorem throttled_response:
  assumes "req_method req = js ''POST''" and "json_body req = Some b"
    and "parse_pin b = Some pin" and "pin \<noteq> []"
    and "rate_limits db (client_key req) = Some row"
    and "now - WINDOW_MS < window_start row" and "MAX_ATTEMPTS \<le> count row"
  shows "verify_pin db now req
         = (\<lparr>status = 429, body = Valid False\<rparr>, db, [Select_rate_limit (client_key req)])"
proof -
  have "check_rate_limit (rate_limits db) (client_key req) now
        = (Throttled, rate_limits db, [Select_rate_limit (client_key req)])"
    using assms(5-7) by (intro check_throttled) auto
  then show ?thesis
    using assms(1-4) by (simp add: verify_pin_def js_def)
qed


theorem throttled_response_witness:
  "req_method (pin_post (js '' abc123 '')) = js ''POST''
   \<and> parse_pin (JObj [(js ''pin'', JStr (js '' abc123 ''))]) = Some (js ''ABC123'')
   \<and> js ''ABC123'' \<noteq> []
   \<and> rate_limits throttled_store (client_key (pin_post (js '' abc123 '')))
       = Some \<lparr>count = 10, window_start = 1000\<rparr>
   \<and> 2000 - WINDOW_MS < window_start \<lparr>count = 10, window_start = 1000\<rparr>
   \<and> MAX_ATTEMPTS \<le> count \<lparr>count = 10, window_start = 1000\<rparr>
   \<and> verify_pin throttled_store 2000 (pin_post (js '' abc123 ''))
       = (\<lparr>status = 429, body = Valid False\<rparr>, throttled_store,
          [Select_rate_limit (js ''203.0.113.7:verify-pin'')])"
proof -
  have a: "req_method (pin_post (js '' abc123 '')) = js ''POST''"
    and b: "json_body (pin_post (js '' abc123 ''))
            = Some (JObj [(js ''pin'', JStr (js '' abc123 ''))])"
    by (simp_all add: pin_post_def)
  have c: "js ''ABC123'' \<noteq> []" by (simp add: js_def)
  have d: "rate_limits throttled_store (client_key (pin_post (js '' abc123 '')))
           = Some \<lparr>count = 10, window_start = 1000\<rparr>"
    by (simp add: sample_key throttled_store_def)
  have e: "2000 - WINDOW_MS < window_start \<lparr>count = 10, window_start = 1000\<rparr>"
    and f: "MAX_ATTEMPTS \<le> count \<lparr>count = 10, window_start = 1000\<rparr>"
    by (simp_all add: WINDOW_MS_def MAX_ATTEMPTS_def)
  show ?thesis
    using throttled_response [OF a b sample_pins(1) c d e f] a sample_pins(1) c d e f
    by (simp add: sample_key)
qed

text \<open>
  The claim as it was stated covers every request from a throttled key. A POST with an
  empty pin from such a key is answered before the rate limiter is reached, with status
  200.
\<close>

theorem throttled_empty_pin_counterexample:
  "rate_limits throttled_store (client_key (pin_post []))
     = Some \<lparr>count = 10, window_start = 1000\<rparr>
   \<and> 2000 - WINDOW_MS < (1000 :: int) \<and> MAX_ATTEMPTS \<le> 10
   \<and> fst (verify_pin throttled_store 2000 (pin_post [])) = \<lparr>status = 200, body = Valid False\<rparr>"
proof -
  have r: "verify_pin throttled_store 2000 (pin_post [])
           = (\<lparr>status = 200, body = Valid False\<rparr>, throttled_store, [])"
    by (simp add: verify_pin_def pin_post_def parse_pin_def js_def trim_def toUpperCase_ascii)
  have k: "rate_limits throttled_store (client_key (pin_post []))
           = Some \<lparr>count = 10, window_start = 1000\<rparr>"
    by (simp add: sample_key throttled_store_def)
  show ?thesis
    unfolding r k by (simp add: WINDOW_MS_def MAX_ATTEMPTS_def)
qed

subsection \<open>Signature check and inbound handler\<close>

lemmas run_text =
  js_def TextEncoder_encode_def utf8_encode_cp_def is_surrogate_def is_high_surrogate_def
  is_low_surrogate_def utf8_decode_without_BOM_def TextDecoder_decode_def strip_BOM_def
  utf16_units_def in_range_def lower_bound_def upper_bound_def trim_def is_white_space_def
  is_line_terminator_def toUpperCase_ascii toUpperCase_unit_def

lemmas run_form =
  URLSearchParams_def parse_urlencoded_def form_decode_def params_keys_def params_get_def
  hex_value_def

lemmas run_hex =
  fromHex_def match_pairs_def parseInt16_def hex_number_def hex_value_def toUint8_def

lemmas run_toy =
  toy_platform_def toy_encrypt_def toy_decrypt_def toy_tag_def toy_hmac_def replicate_16
  replicate_20 upt_rec

lemma utf16_code_points_empty: "utf16_code_points s = [] \<longleftrightarrow> s = []"
  by (induction s rule: utf16_code_points.induct) auto

lemma utf8_encode_cp_nonempty: "utf8_encode_cp c \<noteq> []"
  by (simp add: utf8_encode_cp_def)

lemma TextEncoder_encode_empty: "TextEncoder_encode s = [] \<longleftrightarrow> s = []"
proof (cases "utf16_code_points s")
  case Nil
  then show ?thesis by (simp add: TextEncoder_encode_def utf16_code_points_empty)
next
  case (Cons c cs)
  then have "s \<noteq> []" using utf16_code_points_empty [of s] by simp
  with Cons show ?thesis by (simp add: TextEncoder_encode_def utf8_encode_cp_nonempty)
qed

lemma foldl_append_concat:
  "foldl (\<lambda>str k. str @ f k) u ks = u @ concat (map f ks)"
  by (induction ks arbitrary: u) simp_all

lemma base64_nonempty: "bs \<noteq> [] \<Longrightarrow> base64 bs \<noteq> []"
  by (induction bs rule: base64.induct) simp_all

lemma well_formed_first: "well_formed_utf16 (l # r) \<Longrightarrow> \<not> is_low_surrogate l"
  by (cases r)
     (auto simp: is_surrogate_def is_low_surrogate_def is_high_surrogate_def split: if_splits)

lemma utf16_code_points_append:
  "well_formed_utf16 x \<Longrightarrow> utf16_code_points (u @ x) = utf16_code_points u @ utf16_code_points x"
proof (induction u rule: utf16_code_points.induct)
  case 1
  show ?case by simp
next
  case (2 h)
  show ?case
  proof (cases x)
    case Nil
    then show ?thesis by simp
  next
    case (Cons l r)
    then have "\<not> is_low_surrogate l" using 2 well_formed_first by blast
    with Cons show ?thesis by simp
  qed
next
  case (3 h l r)
  then show ?case by simp
qed

lemma TextEncoder_encode_append:
  "well_formed_utf16 x \<Longrightarrow> TextEncoder_encode (u @ x) = TextEncoder_encode u @ TextEncoder_encode x"
  by (simp add: TextEncoder_encode_def utf16_code_points_append)

lemma decode_without_BOM_encode:
  assumes "well_formed_utf16 s"
  shows "utf8_decode_without_BOM (TextEncoder_encode s) = s"
proof -
  have sc: "list_all scalar_value (utf16_code_points s)"
    and rt: "concat (map utf16_units (utf16_code_points s)) = s"
    using utf16_round_trip [OF assms] by simp_all
  show ?thesis
    by (simp only: utf8_decode_without_BOM_def TextEncoder_encode_def utf8_encode_bytes [OF sc]
          utf8_decode_encode [OF sc] rt)
qed

lemma TextEncoder_encode_inj:
  assumes "well_formed_utf16 s" "well_formed_utf16 t" "TextEncoder_encode s = TextEncoder_encode t"
  shows "s = t"
proof -
  have "s = utf8_decode_without_BOM (TextEncoder_encode s)"
    by (simp only: decode_without_BOM_encode [OF assms(1)])
  also have "\<dots> = utf8_decode_without_BOM (TextEncoder_encode t)"
    by (simp only: assms(3))
  also have "\<dots> = t"
    by (simp only: decode_without_BOM_encode [OF assms(2)])
  finally show ?thesis .
qed

lemma well_formed_append:
  "well_formed_utf16 a \<Longrightarrow> well_formed_utf16 b \<Longrightarrow> well_formed_utf16 (a @ b)"
proof (induction a rule: well_formed_utf16.induct)
  case 1
  then show ?case by simp
next
  case (2 u)
  then show ?case
    by (cases b) (auto simp: is_surrogate_def is_high_surrogate_def)
next
  case (3 h l r)
  then show ?case by (auto split: if_splits)
qed

lemma well_formed_concat:
  "\<forall>x \<in> set xs. well_formed_utf16 x \<Longrightarrow> well_formed_utf16 (concat xs)"
  by (induction xs) (simp_all add: well_formed_append)

lemma well_formed_units: "scalar_value c \<Longrightarrow> well_formed_utf16 (utf16_units c)"
proof -
  assume s: "scalar_value c"
  show ?thesis
  proof (cases "c < 65536")
    case True
    with s show ?thesis by (simp add: utf16_units_def scalar_value_def)
  next
    case False
    define d where "d = c - 65536"
    have d: "c = 65536 + d" "d < 1048576"
      using False s unfolding d_def scalar_value_def by arith+
    have "d div 1024 < 1024" using d(2) by simp
    then have h: "is_high_surrogate (55296 + d div 1024)"
      by (simp add: is_high_surrogate_def)
    have "d mod 1024 < 1024" by simp
    then have l: "is_low_surrogate (56320 + d mod 1024)"
      by (simp add: is_low_surrogate_def)
    have "utf16_units c = [55296 + d div 1024, 56320 + d mod 1024]"
      using False by (simp add: utf16_units_def d(1))
    then show ?thesis using h l by simp
  qed
qed

lemma well_formed_decoded:
  "list_all scalar_value cs \<Longrightarrow> well_formed_utf16 (concat (map utf16_units cs))"
  by (rule well_formed_concat) (auto simp: list_all_iff well_formed_units)


lemma utf8_decode_scalar: "list_all scalar_value (utf8_decode bs)"
proof (induction bs rule: utf8_decode.induct)
  case 1
  show ?case by simp
next
  case (2 b1 bs)
  have r: "scalar_value 65533" by (simp add: scalar_value_def is_surrogate_def)
  show ?case
  proof (cases "b1 \<le> 127")
    case True
    with 2 show ?thesis by (simp add: scalar_value_def is_surrogate_def)
  next
    case n1: False
    show ?thesis
    proof (cases "in_range 194 223 b1")
      case True
      with n1 2 r show ?thesis
        by (auto simp: scalar_value_def is_surrogate_def in_range_def split: list.splits)
    next
      case n2: False
      show ?thesis
      proof (cases "in_range 224 239 b1")
        case True
        with n1 n2 2 r show ?thesis
          by (auto simp: scalar_value_def is_surrogate_def in_range_def lower_bound_def
                upper_bound_def split: list.splits if_splits)
      next
        case n3: False
        show ?thesis
        proof (cases "in_range 240 244 b1")
          case True
          with n1 n2 n3 2 r show ?thesis
            by (auto simp: scalar_value_def is_surrogate_def in_range_def lower_bound_def
                  upper_bound_def split: list.splits if_splits)
        next
          case False
          with n1 n2 n3 2 r show ?thesis by simp
        qed
      qed
    qed
  qed
qed


lemma b64_char_inj: "n < 64 \<Longrightarrow> m < 64 \<Longrightarrow> b64_char n = b64_char m \<Longrightarrow> n = m"
  by (auto simp: b64_char_def split: if_splits)

lemma b64_char_not_pad: "n < 64 \<Longrightarrow> b64_char n \<noteq> 61"
  by (auto simp: b64_char_def split: if_splits)

lemma sextets:
  fixes a b c :: nat
  assumes "a < 256" "b < 256" "c < 256"
  shows "a div 4 < 64" "a mod 4 * 16 + b div 16 < 64" "b mod 16 * 4 + c div 64 < 64"
    "c mod 64 < 64" "a mod 4 * 16 < 64" "b mod 16 * 4 < 64"
proof -
  have "a mod 4 < 4" "b mod 16 < 16" "b div 16 < 16" "c div 64 < 4"
    using assms by auto
  then show "a mod 4 * 16 + b div 16 < 64" "b mod 16 * 4 + c div 64 < 64"
    "a mod 4 * 16 < 64" "b mod 16 * 4 < 64"
    by linarith+
  show "a div 4 < 64" "c mod 64 < 64" using assms by auto
qed

lemma split_high:
  fixes a a' :: nat
  assumes that_eq: "a div 4 = a' div 4" "a mod 4 = a' mod 4"
  shows "a = a'"
proof -
  have "a = a div 4 * 4 + a mod 4" by simp
  also have "\<dots> = a' div 4 * 4 + a' mod 4" using that_eq by simp
  also have "\<dots> = a'" by simp
  finally show ?thesis .
qed

lemma split_mid:
  fixes x y x' y' :: nat
  assumes "x * 16 + y = x' * 16 + y'" "y < 16" "y' < 16"
  shows "x = x' \<and> y = y'"
proof -
  have "x = (x * 16 + y) div 16" using assms(2) by simp
  also have "\<dots> = (x' * 16 + y') div 16" by (simp only: assms(1))
  also have "\<dots> = x'" using assms(3) by simp
  finally have x: "x = x'" .
  with assms(1) have "y = y'" by simp
  with x show ?thesis by simp
qed

lemma split_low:
  fixes x y x' y' :: nat
  assumes "x * 4 + y = x' * 4 + y'" "y < 4" "y' < 4"
  shows "x = x' \<and> y = y'"
proof -
  have "x = (x * 4 + y) div 4" using assms(2) by simp
  also have "\<dots> = (x' * 4 + y') div 4" by (simp only: assms(1))
  also have "\<dots> = x'" using assms(3) by simp
  finally have x: "x = x'" .
  with assms(1) have "y = y'" by simp
  with x show ?thesis by simp
qed

lemma byte16:
  fixes b b' :: nat
  assumes that_eq: "b div 16 = b' div 16" "b mod 16 = b' mod 16"
  shows "b = b'"
proof -
  have "b = b div 16 * 16 + b mod 16" by simp
  also have "\<dots> = b' div 16 * 16 + b' mod 16" using that_eq by simp
  also have "\<dots> = b'" by simp
  finally show ?thesis .
qed

lemma byte64:
  fixes c c' :: nat
  assumes that_eq: "c div 64 = c' div 64" "c mod 64 = c' mod 64"
  shows "c = c'"
proof -
  have "c = c div 64 * 64 + c mod 64" by simp
  also have "\<dots> = c' div 64 * 64 + c' mod 64" using that_eq by simp
  also have "\<dots> = c'" by simp
  finally show ?thesis .
qed

lemma base64_triple_inj:
  assumes lt: "a < 256" "b < 256" "c < 256" "a' < 256" "b' < 256" "c' < 256"
    and e1: "b64_char (a div 4) = b64_char (a' div 4)"
    and e2: "b64_char (a mod 4 * 16 + b div 16) = b64_char (a' mod 4 * 16 + b' div 16)"
    and e3: "b64_char (b mod 16 * 4 + c div 64) = b64_char (b' mod 16 * 4 + c' div 64)"
    and e4: "b64_char (c mod 64) = b64_char (c' mod 64)"
  shows "a = a' \<and> b = b' \<and> c = c'"
proof -
  note s = sextets [OF lt(1-3)] and s' = sextets [OF lt(4-6)]
  have q1: "a div 4 = a' div 4" using b64_char_inj [OF s(1) s'(1) e1] .
  have q2: "a mod 4 * 16 + b div 16 = a' mod 4 * 16 + b' div 16"
    using b64_char_inj [OF s(2) s'(2) e2] .
  have q3: "b mod 16 * 4 + c div 64 = b' mod 16 * 4 + c' div 64"
    using b64_char_inj [OF s(3) s'(3) e3] .
  have q4: "c mod 64 = c' mod 64" using b64_char_inj [OF s(4) s'(4) e4] .
  have "b div 16 < 16" "b' div 16 < 16" using lt by auto
  then have m: "a mod 4 = a' mod 4 \<and> b div 16 = b' div 16" using split_mid [OF q2] by blast
  have "c div 64 < 4" "c' div 64 < 4" using lt by auto
  then have l: "b mod 16 = b' mod 16 \<and> c div 64 = c' div 64" using split_low [OF q3] by blast
  show ?thesis
    using split_high [OF q1] m l byte16 byte64 q4 by blast
qed

lemma base64_inj:
  "length xs = length ys \<Longrightarrow> \<forall>x \<in> set xs. x < 256 \<Longrightarrow> \<forall>y \<in> set ys. y < 256 \<Longrightarrow>
   base64 xs = base64 ys \<Longrightarrow> xs = ys"
proof (induction xs arbitrary: ys rule: base64.induct)
  case (1 a b c r)
  from "1.prems"(1) obtain a' b' c' r' where ys: "ys = a' # b' # c' # r'"
    by (auto simp: Suc_length_conv length_Suc_conv)
  have "a = a' \<and> b = b' \<and> c = c'"
    using "1.prems" unfolding ys by (intro base64_triple_inj) auto
  moreover have "r = r'"
    using "1.prems" unfolding ys by (intro "1.IH") auto
  ultimately show ?case by (simp add: ys)
next
  case (2 a b)
  from "2.prems"(1) obtain a' b' where ys: "ys = [a', b']"
    by (auto simp: Suc_length_conv length_Suc_conv)
  have "a = a' \<and> b = b' \<and> (0::nat) = 0"
    using "2.prems" unfolding ys by (intro base64_triple_inj) auto
  then show ?case by (simp add: ys)
next
  case (3 a)
  from "3.prems"(1) obtain a' where ys: "ys = [a']"
    by (auto simp: Suc_length_conv length_Suc_conv)
  have "a = a' \<and> (0::nat) = 0 \<and> (0::nat) = 0"
    using "3.prems" unfolding ys by (intro base64_triple_inj) auto
  then show ?case by (simp add: ys)
next
  case 4
  then show ?case by simp
qed

lemma unat_byte_less: "\<forall>x \<in> set (map unat (m :: byte list)). x < 256"
proof -
  have "unat x < 256" for x :: byte
    using unsigned_less [of x, where ?'a = nat] by simp
  then show ?thesis by simp
qed

lemma btoa_fromCharCode_inj:
  assumes "length m = length m'" "btoa_fromCharCode m = btoa_fromCharCode m'"
  shows "m = m'"
proof -
  have "map unat m = map unat m'"
  proof (rule base64_inj)
    show "length (map unat m) = length (map unat m')" using assms(1) by simp
    show "\<forall>x \<in> set (map unat m). x < 256" by (rule unat_byte_less)
    show "\<forall>y \<in> set (map unat m'). y < 256" by (rule unat_byte_less)
    show "base64 (map unat m) = base64 (map unat m')"
      using assms(2) by (simp only: btoa_fromCharCode_def)
  qed
  moreover have "inj (unat :: byte \<Rightarrow> nat)"
    by (rule injI) (simp only: word_unat_eq_iff)
  ultimately show ?thesis
    by (simp only: inj_map_eq_map)
qed

lemma insort_key_cong_set:
  "f x = g x \<Longrightarrow> \<forall>y \<in> set ys. f y = g y \<Longrightarrow> insort_key f x ys = insort_key g x ys"
  by (induction ys) simp_all

lemma sort_key_cong_set:
  "\<forall>x \<in> set xs. f x = g x \<Longrightarrow> sort_key f xs = sort_key g xs"
proof (induction xs)
  case Nil
  show ?case by simp
next
  case (Cons a xs)
  have ih: "sort_key f xs = sort_key g xs" using Cons by simp
  have "insort_key f a (sort_key g xs) = insort_key g a (sort_key g xs)"
    by (rule insort_key_cong_set) (use Cons.prems in auto)
  then show ?case by (simp add: ih)
qed

lemma string_code_points_bmp:
  "\<forall>c \<in> set k. \<not> is_surrogate c \<Longrightarrow> string_code_points k = k"
  by (induction k rule: string_code_points.induct)
     (auto simp: is_surrogate_def is_high_surrogate_def)

lemma same_order_without_surrogates:
  assumes "\<forall>k \<in> set ks. \<forall>c \<in> set k. \<not> is_surrogate c"
  shows "sort_key string_code_points ks = sort ks"
proof -
  have "\<forall>k \<in> set ks. string_code_points k = (\<lambda>x. x) k"
    using assms string_code_points_bmp by simp
  then show ?thesis by (rule sort_key_cong_set)
qed


lemma form_decode_well_formed: "well_formed_utf16 (form_decode b)"
  by (simp add: form_decode_def utf8_decode_without_BOM_def well_formed_decoded
        utf8_decode_scalar)

lemma URLSearchParams_well_formed:
  "(k, v) \<in> set (URLSearchParams s) \<Longrightarrow> well_formed_utf16 k \<and> well_formed_utf16 v"
  by (auto simp: URLSearchParams_def parse_urlencoded_def form_decode_well_formed)

lemma signed_suffix_well_formed: "well_formed_utf16 (signed_suffix rawBody)"
proof -
  let ?params = "URLSearchParams rawBody"
  have "well_formed_utf16 (k @ (case params_get ?params k of None \<Rightarrow> [] | Some v \<Rightarrow> v))"
    if mem: "k \<in> set (params_keys ?params)" for k
  proof -
    obtain v where kv: "(k, v) \<in> set ?params"
      using mem by (auto simp: params_keys_def)
    have k: "well_formed_utf16 k" using URLSearchParams_well_formed [OF kv] by simp
    show ?thesis
    proof (cases "params_get ?params k")
      case None
      with k show ?thesis by simp
    next
      case (Some w)
      then have "(k, w) \<in> set ?params" by (simp add: params_get_def map_of_SomeD)
      then have "well_formed_utf16 w" using URLSearchParams_well_formed by blast
      with k Some show ?thesis by (simp add: well_formed_append)
    qed
  qed
  then show ?thesis
    unfolding signed_suffix_def Let_def by (intro well_formed_concat) auto
qed

lemma signed_string_suffix: "signed_string u rawBody = u @ signed_suffix rawBody"
  by (simp add: signed_string_def signed_suffix_def Let_def foldl_append_concat)

lemma signed_bytes_inj:
  assumes "TextEncoder_encode (signed_string u body') = TextEncoder_encode (signed_string u rawBody)"
  shows "signed_string u body' = signed_string u rawBody"
proof -
  have "TextEncoder_encode (signed_suffix body') = TextEncoder_encode (signed_suffix rawBody)"
    using assms
    by (simp add: signed_string_suffix TextEncoder_encode_append signed_suffix_well_formed)
  then have "signed_suffix body' = signed_suffix rawBody"
    by (intro TextEncoder_encode_inj signed_suffix_well_formed)
  then show ?thesis by (simp add: signed_string_suffix)
qed

lemma spec_sign_distinct:
  assumes "distinct (params_keys (URLSearchParams rawBody))" and "same_key_order rawBody"
  shows "spec_sign P u rawBody (TWILIO_AUTH_TOKEN cfg) = expected_signature P cfg u rawBody"
  using assms
  by (simp add: spec_sign_def expected_signature_def signed_string_def Let_def
        foldl_append_concat distinct_remdups_id same_key_order_def)

lemma stop_params:
  "URLSearchParams stop_body = [(js ''From'', js ''+4917612345''), (js ''Body'', js ''stop'')]"
  by (simp add: stop_body_def run_form run_text)

lemma stop_signed_string:
  "signed_string sample_url stop_body = js ''https://x.test/fBodystopFrom+4917612345''"
  unfolding signed_string_def stop_params
  by (simp add: params_keys_def params_get_def sample_url_def js_def)

lemma stop_expected_signature:
  "expected_signature toy_platform toy_config sample_url stop_body = Some (js ''ZmZmZmZmZmZmZmZmZmZmZmZmZmY='')"
  unfolding expected_signature_def stop_signed_string
  by (simp add: toy_config_def run_toy run_text btoa_fromCharCode_def b64_char_def)

lemma abc_signed_strings:
  "signed_string sample_url (js ''a=b&c'') = js ''https://x.test/fabc''"
  "signed_string sample_url (js ''a&b&c'') = js ''https://x.test/fabc''"
  by (simp_all add: signed_string_def sample_url_def run_form run_text)

lemma abc_expected_signature:
  "expected_signature toy_platform toy_config sample_url (js ''a=b&c'') = Some (js ''u7u7u7u7u7u7u7u7u7u7u7u7u7s='')"
  "expected_signature toy_platform toy_config sample_url (js ''a&b&c'') = Some (js ''u7u7u7u7u7u7u7u7u7u7u7u7u7s='')"
  unfolding expected_signature_def abc_signed_strings
  by (simp_all add: toy_config_def run_toy run_text btoa_fromCharCode_def b64_char_def)

lemma other_body_mutations:
  "signed_string sample_url (js ''a=1+2'') = signed_string sample_url (js ''a=1 2'')"
  "signed_string sample_url (js ''a=%2f'') = signed_string sample_url (js ''a=%2F'')"
  by (simp_all add: signed_string_def sample_url_def run_form run_text)

lemma repeated_key_signed_strings:
  "signed_string sample_url (js ''a=1&a=2'') = js ''https://x.test/fa1a1''"
  "sort (remdups (params_keys (URLSearchParams (js ''a=1&a=2'')))) = [js ''a'']"
  by (simp_all add: signed_string_def sample_url_def run_form run_text)

lemma stoq_signed_string:
  "signed_string sample_url (js ''From=%2B4917612345&Body=stoq'')
   = js ''https://x.test/fBodystoqFrom+4917612345''"
  by (simp add: signed_string_def sample_url_def run_form run_text)

lemma stop_stoq_no_collision:
  "\<not> hmac_collision toy_platform (TextEncoder_encode (TWILIO_AUTH_TOKEN toy_config))
       (TextEncoder_encode (signed_string sample_url (js ''From=%2B4917612345&Body=stoq'')))
       (TextEncoder_encode (signed_string sample_url stop_body))"
  unfolding hmac_collision_def stop_signed_string stoq_signed_string
  by (simp add: toy_config_def run_toy run_text)

lemma repeated_key_signatures:
  "spec_sign toy_platform sample_url (js ''a=1&a=2'') (TWILIO_AUTH_TOKEN toy_config)
   = Some (js ''QUFBQUFBQUFBQUFBQUFBQUFBQUE='')"
  "expected_signature toy_platform toy_config sample_url (js ''a=1&a=2'')
   = Some (js ''paWlpaWlpaWlpaWlpaWlpaWlpaU='')"
  by (simp_all add: spec_sign_def expected_signature_def signed_string_def sample_url_def
        toy_config_def run_form run_text run_toy btoa_fromCharCode_def b64_char_def)

lemma order_params:
  "URLSearchParams (js ''%EF%BD%9E=1&%F0%9F%98%80=2'')
   = [([65374], js ''1''), ([55357, 56832], js ''2'')]"
  by (simp add: run_form run_text)

lemma order_sorts:
  "sort [[65374], [55357, 56832 :: nat]] = [[55357, 56832], [65374]]"
  "sort_key string_code_points [[65374], [55357, 56832]] = [[65374], [55357, 56832]]"
  by (simp_all add: is_high_surrogate_def is_low_surrogate_def is_surrogate_def)

lemma order_signatures:
  "spec_sign toy_platform sample_url (js ''%EF%BD%9E=1&%F0%9F%98%80=2'')
     (TWILIO_AUTH_TOKEN toy_config) = Some (js ''V1dXV1dXV1dXV1dXV1dXV1dXV1c='')"
  "expected_signature toy_platform toy_config sample_url (js ''%EF%BD%9E=1&%F0%9F%98%80=2'')
   = Some (js ''jY2NjY2NjY2NjY2NjY2NjY2NjY0='')"
  unfolding spec_sign_def expected_signature_def signed_string_def order_params Let_def
  by (simp_all add: params_keys_def params_get_def order_sorts sample_url_def toy_config_def
        run_text run_toy btoa_fromCharCode_def b64_char_def)

text \<open>
  Claim C1, amended. Signature round trip and tamper sensitivity. Let the platform meet
  its contract and the shared secret be not empty. For every URL and every form-encoded
  body whose decoded keys are pairwise different and come in the same order by code
  point as by UTF-16 code unit, the signature that \<open>spec_sign\<close> computes (base64 of the
  HMAC-SHA1, under the secret, of the URL followed by the distinct keys, sorted by code
  point, each with its first value) verifies. Every other claimed signature, so every
  single-byte mutation of it, is rejected. A mutated body that leaves the signed string
  as it was verifies; a mutated body that changes the signed string is rejected, unless
  HMAC-SHA1 gives the two signed strings the same value.
\<close>

theorem signature_round_trip:
  assumes "platform_contract P" and "TWILIO_AUTH_TOKEN cfg \<noteq> []"
    and "distinct (params_keys (URLSearchParams rawBody))"
    and "same_key_order rawBody"
  shows "\<exists>sig. spec_sign P u rawBody (TWILIO_AUTH_TOKEN cfg) = Some sig
           \<and> verifyTwilio P cfg \<lparr>url = u, twilio_signature = Some sig\<rparr> rawBody = Some True
           \<and> (\<forall>sig'. sig' \<noteq> sig \<longrightarrow>
                 verifyTwilio P cfg \<lparr>url = u, twilio_signature = Some sig'\<rparr> rawBody
                 = Some False)
           \<and> (\<forall>body'. signed_string u body' = signed_string u rawBody \<longrightarrow>
                 verifyTwilio P cfg \<lparr>url = u, twilio_signature = Some sig\<rparr> body'
                 = Some True)
           \<and> (\<forall>body'. signed_string u body' \<noteq> signed_string u rawBody
                   \<and> \<not> hmac_collision P (TextEncoder_encode (TWILIO_AUTH_TOKEN cfg))
                         (TextEncoder_encode (signed_string u body'))
                         (TextEncoder_encode (signed_string u rawBody)) \<longrightarrow>
                 verifyTwilio P cfg \<lparr>url = u, twilio_signature = Some sig\<rparr> body'
                 = Some False)"
proof -
  let ?key = "TextEncoder_encode (TWILIO_AUTH_TOKEN cfg)"
  let ?msg = "\<lambda>b. TextEncoder_encode (signed_string u b)"
  have key: "?key \<noteq> []" using assms(2) by (simp add: TextEncoder_encode_empty)
  have mac: "\<exists>mac. hmac_sha1 P ?key m = Some mac \<and> length mac = 20" for m
    using assms(1) key unfolding platform_contract_def by blast
  obtain mac0 where m0: "hmac_sha1 P ?key (?msg rawBody) = Some mac0" "length mac0 = 20"
    using mac by blast
  define sig where "sig = btoa_fromCharCode mac0"
  have "map unat mac0 \<noteq> []" using m0(2) by auto
  then have sig_ne: "sig \<noteq> []"
    by (simp add: sig_def btoa_fromCharCode_def base64_nonempty)
  have e0: "expected_signature P cfg u rawBody = Some sig"
    by (simp add: expected_signature_def m0(1) sig_def)
  have s: "spec_sign P u rawBody (TWILIO_AUTH_TOKEN cfg) = Some sig"
    using spec_sign_distinct [OF assms(3,4)] e0 by simp
  have v: "verifyTwilio P cfg \<lparr>url = u, twilio_signature = Some sig\<rparr> rawBody = Some True"
    using sig_ne by (simp add: verifyTwilio_def e0)
  have t: "verifyTwilio P cfg \<lparr>url = u, twilio_signature = Some sig'\<rparr> rawBody = Some False"
    if "sig' \<noteq> sig" for sig'
    using that by (auto simp: verifyTwilio_def e0)
  have same: "verifyTwilio P cfg \<lparr>url = u, twilio_signature = Some sig\<rparr> body' = Some True"
    if "signed_string u body' = signed_string u rawBody" for body'
  proof -
    have "expected_signature P cfg u body' = Some sig"
      using that e0 by (simp add: expected_signature_def)
    then show ?thesis using sig_ne by (simp add: verifyTwilio_def)
  qed
  have changed: "verifyTwilio P cfg \<lparr>url = u, twilio_signature = Some sig\<rparr> body' = Some False"
    if d: "signed_string u body' \<noteq> signed_string u rawBody"
      and c: "\<not> hmac_collision P ?key (?msg body') (?msg rawBody)" for body'
  proof -
    obtain mac1 where m1: "hmac_sha1 P ?key (?msg body') = Some mac1" "length mac1 = 20"
      using mac by blast
    have "?msg body' \<noteq> ?msg rawBody" using d signed_bytes_inj by blast
    with c have "hmac_sha1 P ?key (?msg body') \<noteq> hmac_sha1 P ?key (?msg rawBody)"
      by (simp add: hmac_collision_def)
    then have "mac1 \<noteq> mac0" using m0(1) m1(1) by simp
    then have "btoa_fromCharCode mac1 \<noteq> sig"
      unfolding sig_def using btoa_fromCharCode_inj [of mac1 mac0] m0(2) m1(2) by auto
    moreover have "expected_signature P cfg u body' = Some (btoa_fromCharCode mac1)"
      by (simp add: expected_signature_def m1(1))
    ultimately show ?thesis using sig_ne by (simp add: verifyTwilio_def)
  qed
  show ?thesis using s v t same changed by blast
qed

theorem signature_round_trip_witness:
  "platform_contract toy_platform \<and> TWILIO_AUTH_TOKEN toy_config \<noteq> []
   \<and> distinct (params_keys (URLSearchParams stop_body)) \<and> same_key_order stop_body
   \<and> spec_sign toy_platform sample_url stop_body (TWILIO_AUTH_TOKEN toy_config)
       = Some (js ''ZmZmZmZmZmZmZmZmZmZmZmZmZmY='')
   \<and> verifyTwilio toy_platform toy_config
         \<lparr>url = sample_url, twilio_signature = Some (js ''ZmZmZmZmZmZmZmZmZmZmZmZmZmY='')\<rparr> stop_body = Some True
   \<and> verifyTwilio toy_platform toy_config
         \<lparr>url = sample_url, twilio_signature = Some (js ''AuLi4uLi4uLi4uLi4uLi4uLi4uI='')\<rparr> stop_body = Some False
   \<and> verifyTwilio toy_platform toy_config
         \<lparr>url = sample_url, twilio_signature = Some (js ''ZmZmZmZmZmZmZmZmZmZmZmZmZmY='')\<rparr>
         (js ''From=%2B4917612345&Body=stoq'') = Some False"
proof -
  have tok: "TWILIO_AUTH_TOKEN toy_config \<noteq> []" by (simp add: toy_config_def js_def)
  have dist: "distinct (params_keys (URLSearchParams stop_body))"
    by (simp add: stop_params params_keys_def js_def)
  have ord: "same_key_order stop_body"
    by (simp add: same_key_order_def stop_params params_keys_def js_def is_high_surrogate_def
          is_low_surrogate_def is_surrogate_def)
  obtain sig where sig:
    "spec_sign toy_platform sample_url stop_body (TWILIO_AUTH_TOKEN toy_config) = Some sig"
    "verifyTwilio toy_platform toy_config \<lparr>url = sample_url, twilio_signature = Some sig\<rparr>
       stop_body = Some True"
    "\<forall>sig'. sig' \<noteq> sig \<longrightarrow>
       verifyTwilio toy_platform toy_config \<lparr>url = sample_url, twilio_signature = Some sig'\<rparr>
         stop_body = Some False"
    "\<forall>body'. signed_string sample_url body' \<noteq> signed_string sample_url stop_body
        \<and> \<not> hmac_collision toy_platform (TextEncoder_encode (TWILIO_AUTH_TOKEN toy_config))
              (TextEncoder_encode (signed_string sample_url body'))
              (TextEncoder_encode (signed_string sample_url stop_body)) \<longrightarrow>
       verifyTwilio toy_platform toy_config \<lparr>url = sample_url, twilio_signature = Some sig\<rparr>
         body' = Some False"
    using signature_round_trip [OF toy_platform_contract tok dist ord, of sample_url] by blast
  have "spec_sign toy_platform sample_url stop_body (TWILIO_AUTH_TOKEN toy_config)
        = Some (js ''ZmZmZmZmZmZmZmZmZmZmZmZmZmY='')"
    using spec_sign_distinct [OF dist ord, of toy_platform sample_url toy_config]
      stop_expected_signature by simp
  with sig(1) have eq: "sig = js ''ZmZmZmZmZmZmZmZmZmZmZmZmZmY=''" by simp
  have bad: "js ''AuLi4uLi4uLi4uLi4uLi4uLi4uI='' \<noteq> sig" unfolding eq by (simp add: js_def)
  have ne: "signed_string sample_url (js ''From=%2B4917612345&Body=stoq'')
            \<noteq> signed_string sample_url stop_body"
    unfolding stop_signed_string stoq_signed_string by (simp add: js_def)
  have rej: "verifyTwilio toy_platform toy_config
               \<lparr>url = sample_url, twilio_signature = Some sig\<rparr>
               (js ''From=%2B4917612345&Body=stoq'') = Some False"
    using sig(4) ne stop_stoq_no_collision by blast
  show ?thesis
    using sig(1-3) rej bad tok dist ord toy_platform_contract unfolding eq by blast
qed

text \<open>
  The claim as it was stated rejects every single-byte mutation of the body. The body
  is signed through its decoded pairs, so \<^verbatim>\<open>a&b&c\<close>, which is \<^verbatim>\<open>a=b&c\<close> with one byte
  changed, gives the same signed string and verifies under the signature of \<^verbatim>\<open>a=b&c\<close>.
\<close>

theorem body_mutation_counterexample:
  "js ''a&b&c'' = (js ''a=b&c'')[1 := 38] \<and> js ''a&b&c'' \<noteq> js ''a=b&c''
   \<and> signed_string sample_url (js ''a&b&c'') = signed_string sample_url (js ''a=b&c'')
   \<and> spec_sign toy_platform sample_url (js ''a=b&c'') (TWILIO_AUTH_TOKEN toy_config)
       = Some (js ''u7u7u7u7u7u7u7u7u7u7u7u7u7s='')
   \<and> verifyTwilio toy_platform toy_config
         \<lparr>url = sample_url, twilio_signature = Some (js ''u7u7u7u7u7u7u7u7u7u7u7u7u7s='')\<rparr> (js ''a&b&c'')
       = Some True"
proof -
  have dist: "distinct (params_keys (URLSearchParams (js ''a=b&c'')))"
    by (simp add: run_form run_text)
  have ord: "same_key_order (js ''a=b&c'')"
    by (simp add: same_key_order_def run_form run_text)
  have s: "spec_sign toy_platform sample_url (js ''a=b&c'') (TWILIO_AUTH_TOKEN toy_config)
           = Some (js ''u7u7u7u7u7u7u7u7u7u7u7u7u7s='')"
    using spec_sign_distinct [OF dist ord, of toy_platform sample_url toy_config]
      abc_expected_signature(1) by simp
  have v: "verifyTwilio toy_platform toy_config
             \<lparr>url = sample_url, twilio_signature = Some (js ''u7u7u7u7u7u7u7u7u7u7u7u7u7s='')\<rparr> (js ''a&b&c'')
           = Some True"
    by (simp add: verifyTwilio_def abc_expected_signature(2)) (simp add: js_def)
  have m: "js ''a&b&c'' = (js ''a=b&c'')[1 := 38]" "js ''a&b&c'' \<noteq> js ''a=b&c''"
    by (simp_all add: js_def)
  have c: "signed_string sample_url (js ''a&b&c'') = signed_string sample_url (js ''a=b&c'')"
    by (simp only: abc_signed_strings)
  show ?thesis
    by (intro conjI) (rule m s v c)+
qed

text \<open>
  The other conditions of the amended claim are forced as well. For a body with a
  repeated key the code signs the key once for each occurrence, so it refuses the
  signature of the specification.
\<close>

theorem repeated_key_counterexample:
  "\<not> distinct (params_keys (URLSearchParams (js ''a=1&a=2'')))
   \<and> spec_sign toy_platform sample_url (js ''a=1&a=2'') (TWILIO_AUTH_TOKEN toy_config)
       = Some (js ''QUFBQUFBQUFBQUFBQUFBQUFBQUE='')
   \<and> verifyTwilio toy_platform toy_config
         \<lparr>url = sample_url, twilio_signature = Some (js ''QUFBQUFBQUFBQUFBQUFBQUFBQUE='')\<rparr> (js ''a=1&a=2'')
       = Some False"
proof -
  have d: "\<not> distinct (params_keys (URLSearchParams (js ''a=1&a=2'')))"
    by (simp add: run_form run_text)
  have v: "verifyTwilio toy_platform toy_config
             \<lparr>url = sample_url, twilio_signature = Some (js ''QUFBQUFBQUFBQUFBQUFBQUFBQUE='')\<rparr> (js ''a=1&a=2'')
           = Some False"
    by (simp add: verifyTwilio_def repeated_key_signatures(2)) (simp add: js_def)
  show ?thesis
    by (intro conjI) (rule d repeated_key_signatures(1) v)+
qed

text \<open>
  The code sorts the keys with \<^verbatim>\<open>Array.prototype.sort\<close>, by UTF-16 code unit, the
  specification by code point. The keys U+FF5E and U+1F600 come in one order by code
  point and in the other by code unit (\<^verbatim>\<open>D83D DE00\<close> is below \<^verbatim>\<open>FF5E\<close>), so the code
  refuses the signature of the specification for a body with these two keys.
\<close>

theorem code_point_order_counterexample:
  "distinct (params_keys (URLSearchParams (js ''%EF%BD%9E=1&%F0%9F%98%80=2'')))
   \<and> \<not> same_key_order (js ''%EF%BD%9E=1&%F0%9F%98%80=2'')
   \<and> spec_sign toy_platform sample_url (js ''%EF%BD%9E=1&%F0%9F%98%80=2'')
         (TWILIO_AUTH_TOKEN toy_config) = Some (js ''V1dXV1dXV1dXV1dXV1dXV1dXV1c='')
   \<and> verifyTwilio toy_platform toy_config
         \<lparr>url = sample_url, twilio_signature = Some (js ''V1dXV1dXV1dXV1dXV1dXV1dXV1c='')\<rparr>
         (js ''%EF%BD%9E=1&%F0%9F%98%80=2'') = Some False"
proof -
  have d: "distinct (params_keys (URLSearchParams (js ''%EF%BD%9E=1&%F0%9F%98%80=2'')))"
    by (simp add: order_params params_keys_def)
  have o: "\<not> same_key_order (js ''%EF%BD%9E=1&%F0%9F%98%80=2'')"
    by (simp add: same_key_order_def order_params params_keys_def is_high_surrogate_def
          is_low_surrogate_def is_surrogate_def)
  have v: "verifyTwilio toy_platform toy_config
             \<lparr>url = sample_url, twilio_signature = Some (js ''V1dXV1dXV1dXV1dXV1dXV1dXV1c='')\<rparr>
             (js ''%EF%BD%9E=1&%F0%9F%98%80=2'') = Some False"
    by (simp add: verifyTwilio_def order_signatures(2)) (simp add: js_def)
  show ?thesis
    by (intro conjI) (rule d o order_signatures(1) v)+
qed

text \<open>
  The runtime refuses an HMAC key of length zero, so with an empty secret neither
  signing nor verifying returns: \<open>verifyTwilio\<close> throws.
\<close>

theorem empty_secret_counterexample:
  "spec_sign toy_platform sample_url stop_body [] = None
   \<and> verifyTwilio toy_platform (toy_config\<lparr>TWILIO_AUTH_TOKEN := []\<rparr>)
         \<lparr>url = sample_url, twilio_signature = Some (js ''ZmZmZmZmZmZmZmZmZmZmZmZmZmY='')\<rparr> stop_body = None"
  by (simp add: spec_sign_def verifyTwilio_def expected_signature_def TextEncoder_encode_def
        toy_platform_def toy_hmac_def Let_def)
     (simp add: js_def)

text \<open>
  The rejection of a changed signed string is stated for the pairs on which the MAC
  does not collide. The contract of the platform does not exclude a collision: on the
  small instance the signed strings of \<^verbatim>\<open>k=ba\<close> and \<^verbatim>\<open>k=ad\<close> differ and have the same
  MAC, so the signature of the one verifies the other.
\<close>

theorem mac_collision_counterexample:
  "signed_string sample_url (js ''k=ad'') \<noteq> signed_string sample_url (js ''k=ba'')
   \<and> hmac_collision toy_platform (TextEncoder_encode (TWILIO_AUTH_TOKEN toy_config))
         (TextEncoder_encode (signed_string sample_url (js ''k=ad'')))
         (TextEncoder_encode (signed_string sample_url (js ''k=ba'')))
   \<and> spec_sign toy_platform sample_url (js ''k=ba'') (TWILIO_AUTH_TOKEN toy_config)
       = Some (js ''ExMTExMTExMTExMTExMTExMTExM='')
   \<and> verifyTwilio toy_platform toy_config
         \<lparr>url = sample_url, twilio_signature = Some (js ''ExMTExMTExMTExMTExMTExMTExM='')\<rparr>
         (js ''k=ad'') = Some True"
proof -
  have s: "signed_string sample_url (js ''k=ad'') = js ''https://x.test/fkad''"
    "signed_string sample_url (js ''k=ba'') = js ''https://x.test/fkba''"
    by (simp_all add: signed_string_def sample_url_def run_form run_text)
  have d: "signed_string sample_url (js ''k=ad'') \<noteq> signed_string sample_url (js ''k=ba'')"
    unfolding s by (simp add: js_def)
  have c: "hmac_collision toy_platform (TextEncoder_encode (TWILIO_AUTH_TOKEN toy_config))
             (TextEncoder_encode (signed_string sample_url (js ''k=ad'')))
             (TextEncoder_encode (signed_string sample_url (js ''k=ba'')))"
    unfolding hmac_collision_def s by (simp add: toy_config_def run_toy run_text)
  have g: "spec_sign toy_platform sample_url (js ''k=ba'') (TWILIO_AUTH_TOKEN toy_config)
           = Some (js ''ExMTExMTExMTExMTExMTExMTExM='')"
    by (simp add: spec_sign_def sample_url_def toy_config_def run_form run_text run_toy
          btoa_fromCharCode_def b64_char_def)
  have e: "expected_signature toy_platform toy_config sample_url (js ''k=ad'')
           = Some (js ''ExMTExMTExMTExMTExMTExMTExM='')"
    unfolding expected_signature_def s
    by (simp add: toy_config_def run_toy run_text btoa_fromCharCode_def b64_char_def)
  have v: "verifyTwilio toy_platform toy_config
             \<lparr>url = sample_url, twilio_signature = Some (js ''ExMTExMTExMTExMTExMTExMTExM='')\<rparr>
             (js ''k=ad'') = Some True"
    by (simp add: verifyTwilio_def e) (simp add: js_def)
  show ?thesis
    by (intro conjI) (rule d c g v)+
qed

text \<open>
  No HMAC-SHA1 is free of collisions either: its values have 20 bytes and its messages
  are without bound.
\<close>

lemma mac_collisions_exist:
  assumes "platform_contract P" and "key \<noteq> []"
  shows "\<exists>m m'. m \<noteq> m' \<and> hmac_sha1 P key m = hmac_sha1 P key m'"
proof (rule ccontr)
  assume "\<not> (\<exists>m m'. m \<noteq> m' \<and> hmac_sha1 P key m = hmac_sha1 P key m')"
  then have inj: "inj (hmac_sha1 P key)" by (auto simp: inj_def)
  have "hmac_sha1 P key m \<in> Some ` {mac :: byte list. length mac = 20}" for m
  proof -
    obtain mac where "hmac_sha1 P key m = Some mac" "length mac = 20"
      using assms unfolding platform_contract_def by blast
    then show ?thesis by simp
  qed
  then have "range (hmac_sha1 P key) \<subseteq> Some ` {mac :: byte list. length mac = 20}"
    by (rule image_subsetI)
  moreover have "finite {mac :: byte list. length mac = 20}"
    using finite_lists_length_eq [of "UNIV :: byte set" 20] by simp
  ultimately have "finite (range (hmac_sha1 P key))"
    by (meson finite_imageI finite_subset)
  then have "finite (UNIV :: byte list set)"
    using inj by (rule finite_imageD)
  then show False using infinite_UNIV_listI by blast
qed

text \<open>
  Claim C3. When \<open>verifyTwilio\<close> returns false, the handler answers with status 403 and
  the body \<^verbatim>\<open>Forbidden\<close>, which says nothing of the reason; the store is returned as it
  was and the list of store operations is empty: no row of \<^verbatim>\<open>subscribers\<close>,
  \<^verbatim>\<open>inbound_sms\<close> or \<^verbatim>\<open>pins\<close> is read or written.
\<close>

theorem rejected_request_touches_nothing:
  assumes "verifyTwilio P cfg req rawBody = Some False"
  shows "handle_inbound_sms P cfg env db req rawBody
         = (\<lparr>sms_status = 403, sms_body = Plain (js ''Forbidden'')\<rparr>, db, [])"
  using assms by (simp add: handle_inbound_sms_def)

theorem rejected_request_touches_nothing_witness:
  "verifyTwilio toy_platform toy_config
     \<lparr>url = sample_url, twilio_signature = Some (js ''AuLi4uLi4uLi4uLi4uLi4uLi4uI='')\<rparr> stop_body = Some False
   \<and> handle_inbound_sms toy_platform toy_config sample_env sample_store
        \<lparr>url = sample_url, twilio_signature = Some (js ''AuLi4uLi4uLi4uLi4uLi4uLi4uI='')\<rparr> stop_body
      = (\<lparr>sms_status = 403, sms_body = Plain (js ''Forbidden'')\<rparr>, sample_store, [])"
proof -
  have f: "verifyTwilio toy_platform toy_config
             \<lparr>url = sample_url, twilio_signature = Some (js ''AuLi4uLi4uLi4uLi4uLi4uLi4uI='')\<rparr> stop_body
           = Some False"
    by (simp add: verifyTwilio_def stop_expected_signature) (simp add: js_def)
  show ?thesis
    using rejected_request_touches_nothing [OF f, of sample_env sample_store] f by simp
qed

lemma sample_phones:
  "decrypt toy_platform toy_config (phone sub_ada) = js ''+16475551234''"
  "decrypt toy_platform toy_config (phone sub_bo) = js ''+4917612345''"
  "decrypt toy_platform toy_config (phone sub_cy) = js ''+13065559999''"
  by (simp_all add: sub_ada_def sub_bo_def sub_cy_def decrypt_def decrypt_try_def toy_key
        run_toy run_hex run_text)

text \<open>
  Claim C7. Identity matching: the loop goes through the rows in order, decrypts the
  phone of each with the envelope codec and stops at the first row whose decrypted phone
  is equal to the target, code unit for code unit: it finds \<open>s\<close> exactly when \<open>s\<close> is in
  the list with a decrypted phone equal to the target and no row before it has one; it
  finds nothing, which is a result and not an error, exactly when no row has one.
\<close>

theorem find_subscriber_first_match:
  "(find_subscriber (decrypt P cfg) subs target = Some s
      \<longleftrightarrow> (\<exists>before after. subs = before @ s # after
              \<and> decrypt P cfg (phone s) = target
              \<and> (\<forall>r \<in> set before. decrypt P cfg (phone r) \<noteq> target)))
   \<and> (find_subscriber (decrypt P cfg) subs target = None
      \<longleftrightarrow> (\<forall>r \<in> set subs. decrypt P cfg (phone r) \<noteq> target))"
proof (induction subs)
  case Nil
  show ?case by simp
next
  case (Cons a subs)
  show ?case
  proof (cases "decrypt P cfg (phone a) = target")
    case True
    have "(\<exists>before after. a # subs = before @ s # after
              \<and> decrypt P cfg (phone s) = target
              \<and> (\<forall>r \<in> set before. decrypt P cfg (phone r) \<noteq> target)) \<longleftrightarrow> a = s"
    proof
      assume "\<exists>before after. a # subs = before @ s # after
              \<and> decrypt P cfg (phone s) = target
              \<and> (\<forall>r \<in> set before. decrypt P cfg (phone r) \<noteq> target)"
      then obtain before after where h: "a # subs = before @ s # after"
          "\<forall>r \<in> set before. decrypt P cfg (phone r) \<noteq> target"
        by blast
      show "a = s"
      proof (cases before)
        case Nil
        with h show ?thesis by simp
      next
        case (Cons x xs)
        with h True show ?thesis by auto
      qed
    next
      assume "a = s"
      with True have "a # subs = [] @ s # subs \<and> decrypt P cfg (phone s) = target
          \<and> (\<forall>r \<in> set []. decrypt P cfg (phone r) \<noteq> target)"
        by simp
      then show "\<exists>before after. a # subs = before @ s # after
              \<and> decrypt P cfg (phone s) = target
              \<and> (\<forall>r \<in> set before. decrypt P cfg (phone r) \<noteq> target)"
        by blast
    qed
    with True show ?thesis by auto
  next
    case False
    have "(\<exists>before after. a # subs = before @ s # after
              \<and> decrypt P cfg (phone s) = target
              \<and> (\<forall>r \<in> set before. decrypt P cfg (phone r) \<noteq> target))
          \<longleftrightarrow> (\<exists>before after. subs = before @ s # after
              \<and> decrypt P cfg (phone s) = target
              \<and> (\<forall>r \<in> set before. decrypt P cfg (phone r) \<noteq> target))"
      (is "?L \<longleftrightarrow> ?R")
    proof
      assume ?L
      then obtain before after where h: "a # subs = before @ s # after"
          "decrypt P cfg (phone s) = target"
          "\<forall>r \<in> set before. decrypt P cfg (phone r) \<noteq> target"
        by blast
      show ?R
      proof (cases before)
        case Nil
        with h False show ?thesis by simp
      next
        case (Cons x xs)
        with h have "subs = xs @ s # after" "\<forall>r \<in> set xs. decrypt P cfg (phone r) \<noteq> target"
          by auto
        with h(2) show ?thesis by blast
      qed
    next
      assume ?R
      then obtain before after where h: "subs = before @ s # after"
          "decrypt P cfg (phone s) = target"
          "\<forall>r \<in> set before. decrypt P cfg (phone r) \<noteq> target"
        by blast
      then have "a # subs = (a # before) @ s # after"
          "\<forall>r \<in> set (a # before). decrypt P cfg (phone r) \<noteq> target"
        using False by auto
      with h(2) show ?L by blast
    qed
    with False Cons.IH show ?thesis by simp
  qed
qed


theorem find_subscriber_first_match_witness:
  "find_subscriber (decrypt toy_platform toy_config) sample_subscribers (js ''+4917612345'')
     = Some sub_bo
   \<and> find_subscriber (decrypt toy_platform toy_config) sample_subscribers (js ''+10000000000'')
     = None"
proof -
  have n0: "\<forall>r \<in> set [sub_ada]. decrypt toy_platform toy_config (phone r) \<noteq> js ''+4917612345''"
    by (simp add: sample_phones) (simp add: js_def)
  have sp: "sample_subscribers = [sub_ada] @ sub_bo # [sub_cy]"
    by (simp add: sample_subscribers_def)
  have hit: "find_subscriber (decrypt toy_platform toy_config) sample_subscribers
               (js ''+4917612345'') = Some sub_bo"
    using find_subscriber_first_match
      [of toy_platform toy_config sample_subscribers "js ''+4917612345''" sub_bo]
      sp n0 sample_phones(2) by blast
  have none: "\<forall>r \<in> set sample_subscribers.
                decrypt toy_platform toy_config (phone r) \<noteq> js ''+10000000000''"
    by (simp add: sample_subscribers_def sample_phones js_def)
  have miss: "find_subscriber (decrypt toy_platform toy_config) sample_subscribers
                (js ''+10000000000'') = None"
    using find_subscriber_first_match
      [of toy_platform toy_config sample_subscribers "js ''+10000000000''"] none by blast
  show ?thesis using hit miss by blast
qed

lemma stop_scenario:
  "handle_inbound_sms toy_platform toy_config sample_env sample_store
     \<lparr>url = sample_url, twilio_signature = Some (js ''ZmZmZmZmZmZmZmZmZmZmZmZmZmY='')\<rparr> stop_body
   = (twiml Unsubscribed,
      sample_store\<lparr>subscribers := [sub_ada, sub_bo\<lparr>active := False\<rparr>, sub_cy]\<rparr>,
      [Select_subscribers, Update_subscriber_active 2 False])"
proof -
  have v: "verifyTwilio toy_platform toy_config
             \<lparr>url = sample_url, twilio_signature = Some (js ''ZmZmZmZmZmZmZmZmZmZmZmZmZmY='')\<rparr>
             stop_body
           = Some True"
    by (simp add: verifyTwilio_def stop_expected_signature) (simp add: js_def)
  have hit: "find_subscriber (decrypt toy_platform toy_config) sample_subscribers
               (js ''+4917612345'') = Some sub_bo"
    by (simp add: sample_subscribers_def sample_phones js_def)
  have ss: "subscribers sample_store = sample_subscribers"
    by (simp add: sample_store_def)
  have ids: "sub_id sub_ada = 1" "sub_id sub_bo = 2" "sub_id sub_cy = 3"
    by (simp_all add: sub_ada_def sub_bo_def sub_cy_def)
  have t: "toggle_subscription toy_platform toy_config sample_store (js ''+4917612345'') False
           = (sample_store\<lparr>subscribers := [sub_ada, sub_bo\<lparr>active := False\<rparr>, sub_cy]\<rparr>,
              [Select_subscribers, Update_subscriber_active 2 False])"
    unfolding toggle_subscription_def ss hit
    by (simp add: ids set_active_def sample_subscribers_def)
  have cmd: "toUpperCase (trim (js ''stop'')) = js ''STOP''"
    "trim (js ''+4917612345'') = js ''+4917612345''"
    by (simp_all add: run_text)
  have f: "params_get (URLSearchParams stop_body) (js ''From'') = Some (js ''+4917612345'')"
    and b: "params_get (URLSearchParams stop_body) (js ''Body'') = Some (js ''stop'')"
    by (simp_all add: stop_params params_get_def js_def)
  have stop: "js ''STOP'' \<in> set [js ''STOP'', js ''STOPALL'', js ''UNSUBSCRIBE'', js ''CANCEL'',
                               js ''END'', js ''QUIT'']"
    by simp
  show ?thesis
    unfolding handle_inbound_sms_def v f b Let_def
    by (simp only: option.case bool.case cmd if_P [OF stop] t prod.case)
qed

end
